theory Spec2Isabelle
  imports Complex_Main "HOL-Library.Sublist"
begin

section \<open>Errors and result plumbing\<close>

text \<open>
  The Python exceptions the modelled functions can raise. A function that can raise
  returns \<open>py_error + 'a\<close>, with \<open>Inl\<close> for the exception.
\<close>

datatype py_error =
  AssertionError | IndexError | KeyError | TypeError | ValueError
  | ZeroDivisionError | RuntimeError

definition bind_res :: "'e + 'a \<Rightarrow> ('a \<Rightarrow> 'e + 'b) \<Rightarrow> 'e + 'b" where
  "bind_res m f = (case m of Inl e \<Rightarrow> Inl e | Inr v \<Rightarrow> f v)"

text \<open>Run \<open>f\<close> over a list from the left; the first exception ends the run.\<close>

fun map_res :: "('a \<Rightarrow> 'e + 'b) \<Rightarrow> 'a list \<Rightarrow> 'e + 'b list" where
  "map_res f [] = Inr []"
| "map_res f (x # xs) =
     bind_res (f x) (\<lambda>y. bind_res (map_res f xs) (\<lambda>ys. Inr (y # ys)))"

text \<open>Python indexing \<open>xs[i]\<close>: a negative index counts from the end.\<close>

definition py_get :: "'a list \<Rightarrow> int \<Rightarrow> py_error + 'a" where
  "py_get xs i =
     (if 0 \<le> i \<and> i < int (length xs) then Inr (xs ! nat i)
      else if i < 0 \<and> - int (length xs) \<le> i then Inr (xs ! nat (int (length xs) + i))
      else Inl IndexError)"

text \<open>Indexing the leading axis of a tensor with a non-negative position.\<close>

definition row_at :: "'a list \<Rightarrow> nat \<Rightarrow> py_error + 'a" where
  "row_at xs i = (if i < length xs then Inr (xs ! i) else Inl IndexError)"

section \<open>Sampling weight (calculate_online_sample_weight)\<close>

text \<open>
  \<^verbatim>\<open>assert 0.0 <= pc_on <= 1.0
  return -(n_off * pc_on) / (n_on * (pc_on - 1))\<close>
  The counts are Python ints, the fraction a Python float; the model computes in exact
  rational arithmetic. Dividing a Python float by zero raises ZeroDivisionError.
\<close>

definition calculate_online_sample_weight :: "int \<Rightarrow> int \<Rightarrow> rat \<Rightarrow> py_error + rat" where
  "calculate_online_sample_weight n_off n_on pc_on =
     (if \<not> (0 \<le> pc_on \<and> pc_on \<le> 1) then Inl AssertionError
      else if of_int n_on * (pc_on - 1) = 0 then Inl ZeroDivisionError
      else Inr (- (of_int n_off * pc_on) / (of_int n_on * (pc_on - 1))))"

section \<open>Episode boundaries (eval_policy, the done indices and the mask)\<close>

text \<open>
  A tensor of shape (batch, steps) is the list of its rows. \<open>shape1\<close> reads
  \<^verbatim>\<open>.shape[1]\<close> off the first row.
\<close>

definition shape1 :: "'a list list \<Rightarrow> nat" where
  "shape1 t = (case t of [] \<Rightarrow> 0 | r # _ \<Rightarrow> length r)"

text \<open>
  \<^verbatim>\<open>torch.argmax\<close> along one row: the position of the greatest entry, the first one
  among equals (the source relies on this tie-break). An empty row has no argmax.
\<close>

fun argmax_from :: "int list \<Rightarrow> nat \<Rightarrow> int \<Rightarrow> nat \<Rightarrow> nat" where
  "argmax_from [] i best best_i = best_i"
| "argmax_from (x # xs) i best best_i =
     (if best < x then argmax_from xs (Suc i) x i else argmax_from xs (Suc i) best best_i)"

definition argmax :: "int list \<Rightarrow> py_error + nat" where
  "argmax xs = (case xs of [] \<Rightarrow> Inl IndexError | x # r \<Rightarrow> Inr (argmax_from r 1 x 0))"

text \<open>\<^verbatim>\<open>done_indices = torch.argmax(rollout_data["done"].to(int), axis=1)\<close>\<close>

definition done_indices_of :: "bool list list \<Rightarrow> py_error + nat list" where
  "done_indices_of d = map_res (\<lambda>row. argmax (map of_bool row)) d"

text \<open>
  \<^verbatim>\<open>mask = (torch.arange(n_steps) <= einops.repeat(done_indices + 1, "b -> b s", s=n_steps)).int()\<close>
\<close>

definition make_mask :: "nat \<Rightarrow> nat list \<Rightarrow> int list list" where
  "make_mask n_steps done_indices =
     map (\<lambda>d. map (\<lambda>s. if s \<le> d + 1 then 1 else 0) [0..<n_steps]) done_indices"

text \<open>
  The boundary resolution of one rollout, as eval_policy computes it:
  \<^verbatim>\<open>n_steps = rollout_data["done"].shape[1]\<close>, then the done indices, then the mask.
\<close>

definition resolve_boundaries :: "bool list list \<Rightarrow> py_error + (nat list \<times> int list list)" where
  "resolve_boundaries d =
     (let n_steps = shape1 d
      in bind_res (done_indices_of d)
           (\<lambda>done_indices. Inr (done_indices, make_mask n_steps done_indices)))"

text \<open>The position of the first true entry of a row (the row's length when there is none).\<close>

definition first_true :: "bool list \<Rightarrow> nat" where
  "first_true row = length (takeWhile Not row)"

section \<open>Datasets\<close>

text \<open>
  A Hugging Face dataset is the list of its rows (frames); every column has one entry
  per row. \<^verbatim>\<open>len(dataset)\<close> is the number of rows, \<^verbatim>\<open>concatenate_datasets\<close> appends the
  rows, \<^verbatim>\<open>dataset.select_columns(c)[i][c]\<close> reads column \<open>c\<close> of row \<open>i\<close>. An image cell
  holds the PIL image (shape height, width, channel and 8-bit pixels), any other
  observation cell the flattened tensor.
\<close>

datatype pil_image = PILImage (img_shape: "nat list") (img_pixels: "nat list")

datatype cell = ImageCell pil_image | TensorCell "rat list"

record frame_rec =
  row_action :: "rat list"
  episode_index :: int
  frame_index :: int
  timestamp :: rat
  next_done :: bool
  next_reward :: rat
  row_observation :: "(string \<times> cell) list"
  index :: int

type_synonym hf_dataset = "frame_rec list"

text \<open>
  The episode_data_index handed to add_episodes_inplace is a dict of two tensors that the
  function updates in place (\<^verbatim>\<open>+=\<close>) and that the online dataset may alias. Tensors of
  this kind live in a store, and the dict holds their addresses.
\<close>

type_synonym addr = nat

record edi_ref =
  from_ref :: addr
  to_ref :: addr

text \<open>
  Modelled from the spec: the classes of the three structures add_episodes_inplace
  mutates, and the caller that builds them, are not in the source. The online dataset
  holds its hf_dataset and its episode_data_index, and its length is the number of rows
  of the hf_dataset. The ConcatDataset is the concatenation of the fixed offline
  dataset (only its length matters) and the online dataset, which it holds by
  reference; \<^verbatim>\<open>len(concat_dataset)\<close> is the last entry of cumulative_sizes. The sampler
  holds one weight per sample and the sample count.
\<close>

record online_dataset =
  hf_dataset :: hf_dataset
  episode_data_index :: edi_ref

record concat_dataset =
  offline_len :: nat
  cumulative_sizes :: "nat list"

record sampler =
  weights :: "rat list"
  num_samples :: nat

record world =
  tensors :: "addr \<Rightarrow> int list"
  online_dataset :: online_dataset
  concat_dataset :: concat_dataset
  sampler :: sampler

section \<open>Merging episodes (add_episodes_inplace)\<close>

text \<open>
  \<^verbatim>\<open>ConcatDataset.cumsum\<close>: the running sums of the lengths of the datasets.
\<close>

fun cumsum_from :: "nat \<Rightarrow> nat list \<Rightarrow> nat list" where
  "cumsum_from s [] = []"
| "cumsum_from s (l # ls) = (l + s) # cumsum_from (s + l) ls"

definition cumsum :: "nat list \<Rightarrow> nat list" where
  "cumsum lens = cumsum_from 0 lens"

definition len_online :: "world \<Rightarrow> nat" where
  "len_online w = length (hf_dataset (online_dataset w))"

text \<open>
  \<^verbatim>\<open>def shift_indices(episode_index, index):
      example = {"episode_index": episode_index + start_episode_idx,
                 "index": index + start_index}\<close>
  mapped over the rows; frame_index and the other columns stay.
\<close>

definition shift_indices :: "int \<Rightarrow> int \<Rightarrow> frame_rec \<Rightarrow> frame_rec" where
  "shift_indices start_episode_idx start_index r =
     r\<lparr>episode_index := episode_index r + start_episode_idx, index := index r + start_index\<rparr>"

text \<open>\<^verbatim>\<open>tensor += k\<close> on the tensor stored at an address.\<close>

definition tensor_iadd :: "addr \<Rightarrow> int \<Rightarrow> (addr \<Rightarrow> int list) \<Rightarrow> (addr \<Rightarrow> int list)" where
  "tensor_iadd a k h = h(a := map (\<lambda>x. x + k) (h a))"

text \<open>
  The branch on \<^verbatim>\<open>len(online_dataset) == 0\<close>: adopt the batch and its index dict, or
  shift the batch by \<^verbatim>\<open>start_episode_idx = last_episode_idx + 1\<close> and
  \<^verbatim>\<open>start_index = last_index + 1\<close> (both read off the incoming batch), shift the incoming
  index tensors in place and append the rows. The online dataset's own
  episode_data_index is not assigned in the second branch.
\<close>

definition extend_online :: "world \<Rightarrow> hf_dataset \<Rightarrow> edi_ref \<Rightarrow> int \<Rightarrow> int \<Rightarrow> world" where
  "extend_online w hf edi last_episode_idx last_index =
     (if len_online w = 0
      then w\<lparr>online_dataset := \<lparr>hf_dataset = hf, episode_data_index = edi\<rparr>\<rparr>
      else
        let start_episode_idx = last_episode_idx + 1;
            start_index = last_index + 1;
            hf' = map (shift_indices start_episode_idx start_index) hf;
            h' = tensor_iadd (to_ref edi) start_index
                   (tensor_iadd (from_ref edi) start_index (tensors w))
        in w\<lparr>tensors := h',
              online_dataset := (online_dataset w)\<lparr>hf_dataset := hf_dataset (online_dataset w) @ hf'\<rparr>\<rparr>)"

text \<open>
  The tail of the function: cumulative_sizes, the weight of an online frame, the
  sampler's weights and num_samples. The weight calculation can raise; the state it
  raises in holds the updates made so far.
\<close>

definition update_sampling :: "world \<Rightarrow> rat \<Rightarrow> py_error option \<times> world" where
  "update_sampling w pc_online_samples =
     (let w1 = w\<lparr>concat_dataset := (concat_dataset w)\<lparr>cumulative_sizes :=
                   cumsum [offline_len (concat_dataset w), len_online w]\<rparr>\<rparr>;
          len_concat = last (cumulative_sizes (concat_dataset w1));
          len_on = len_online w1;
          len_offline = int len_concat - int len_on
      in case calculate_online_sample_weight len_offline (int len_on) pc_online_samples of
           Inl e \<Rightarrow> (Some e, w1)
         | Inr weight_online \<Rightarrow>
             (None, w1\<lparr>sampler := \<lparr>weights = replicate (nat len_offline) 1
                                                 @ replicate len_on weight_online,
                                      num_samples = len_concat\<rparr>\<rparr>))"

text \<open>
  The function returns nothing; the result is the exception raised (if any) and the
  state of the store and of the three structures when it returns or raises.
\<close>

definition add_episodes_inplace ::
  "world \<Rightarrow> hf_dataset \<Rightarrow> edi_ref \<Rightarrow> rat \<Rightarrow> py_error option \<times> world" where
  "add_episodes_inplace w hf edi pc_online_samples =
     (case py_get (map episode_index hf) 0 of Inl e \<Rightarrow> (Some e, w) | Inr first_episode_idx \<Rightarrow>
      case py_get (map episode_index hf) (- 1) of Inl e \<Rightarrow> (Some e, w) | Inr last_episode_idx \<Rightarrow>
      case py_get (map index hf) 0 of Inl e \<Rightarrow> (Some e, w) | Inr first_index \<Rightarrow>
      case py_get (map index hf) (- 1) of Inl e \<Rightarrow> (Some e, w) | Inr last_index \<Rightarrow>
      if first_episode_idx \<noteq> 0 then (Some AssertionError, w)
      else if first_index \<noteq> 0 then (Some AssertionError, w)
      else case py_get (tensors w (from_ref edi)) first_episode_idx of
        Inl e \<Rightarrow> (Some e, w)
      | Inr f \<Rightarrow>
      if first_index \<noteq> f then (Some AssertionError, w)
      else case py_get (tensors w (to_ref edi)) last_episode_idx of
        Inl e \<Rightarrow> (Some e, w)
      | Inr t \<Rightarrow>
      if last_index \<noteq> t - 1 then (Some AssertionError, w)
      else update_sampling (extend_online w hf edi last_episode_idx last_index) pc_online_samples)"

text \<open>A caller merging several batches in turn; the first exception ends the run.\<close>

fun add_episodes_seq ::
  "world \<Rightarrow> (hf_dataset \<times> edi_ref \<times> rat) list \<Rightarrow> py_error option \<times> world" where
  "add_episodes_seq w [] = (None, w)"
| "add_episodes_seq w ((hf, edi, pc) # rest) =
     (case add_episodes_inplace w hf edi pc of
        (Some e, w') \<Rightarrow> (Some e, w')
      | (None, w') \<Rightarrow> add_episodes_seq w' rest)"

text \<open>The (from, to) ranges an episode_data_index holds in a store.\<close>

definition ranges_of :: "(addr \<Rightarrow> int list) \<Rightarrow> edi_ref \<Rightarrow> (int \<times> int) list" where
  "ranges_of h edi = zip (h (from_ref edi)) (h (to_ref edi))"


text \<open>Example data: a frame with the three index columns set, and a state with no online data.\<close>

definition example_frame :: "int \<Rightarrow> int \<Rightarrow> int \<Rightarrow> frame_rec" where
  "example_frame e f i = \<lparr>row_action = [], episode_index = e, frame_index = f, timestamp = 0,
     next_done = False, next_reward = 0, row_observation = [], index = i\<rparr>"

definition empty_world :: "nat \<Rightarrow> world" where
  "empty_world n_off =
     \<lparr>tensors = (\<lambda>a. []),
      online_dataset = \<lparr>hf_dataset = [], episode_data_index = \<lparr>from_ref = 0, to_ref = 0\<rparr>\<rparr>,
      concat_dataset = \<lparr>offline_len = n_off, cumulative_sizes = [n_off, n_off]\<rparr>,
      sampler = \<lparr>weights = replicate n_off 1, num_samples = n_off\<rparr>\<rparr>"

section \<open>Rollout data\<close>

text \<open>
  What \<^verbatim>\<open>rollout\<close> returns: tensors of shape (batch, steps[, *]) as nested lists, with
  floats as rationals. An observation tensor has shape (batch, steps + 1, *frame_shape);
  each frame is kept flat (row-major) beside the frame shape and the dtype. The
  "observation" key is present only when the rollout was asked for observations.
\<close>

datatype dtype = Float32 | Float64 | UInt8 | Int64

record obs_tensor =
  obs_dtype :: dtype
  frame_shape :: "nat list"
  obs_frames :: "rat list list list"

record rollout_data =
  rd_action :: "rat list list list"
  rd_reward :: "rat list list"
  rd_success :: "bool list list"
  rd_done :: "bool list list"
  rd_observation :: "(string \<times> obs_tensor) list option"

section \<open>Compiling episodes (_compile_episode_data)\<close>

text \<open>
  One entry of \<^verbatim>\<open>ep_dicts\<close>. The observation entries are views
  \<^verbatim>\<open>rollout_data["observation"][key][ep_ix][:num_frames]\<close> of the rollout's tensors.
\<close>

record obs_slice =
  sl_dtype :: dtype
  sl_shape :: "nat list"
  sl_frames :: "rat list list"

record ep_dict =
  ep_action :: "rat list list"
  ep_episode_index :: "int list"
  ep_frame_index :: "int list"
  ep_timestamp :: "rat list"
  ep_next_done :: "bool list"
  ep_next_reward :: "rat list"
  ep_observation :: "(string \<times> obs_slice) list"

text \<open>
  The function's result: the dataset and the episode_data_index, whose two tensors are
  created by the call. The dataset carries the features it was built with: for every
  observation key \<^verbatim>\<open>Image()\<close> or a sequence of floats of a fixed length, and the features
  of the seven columns, of which only the length of the action sequence varies.
\<close>

record episode_data_index_t =
  index_from :: "int list"
  index_to :: "int list"

datatype feature = ImageFeature | SequenceFeature nat

record dataset_features =
  ft_action :: nat
  ft_observation :: "(string \<times> feature) list"

record episode_data =
  ed_hf_dataset :: hf_dataset
  ed_features :: dataset_features
  ed_episode_data_index :: episode_data_index_t

text \<open>
  The body of the first loop for one \<^verbatim>\<open>ep_ix\<close>: every per-step tensor is indexed at
  \<^verbatim>\<open>ep_ix\<close> (IndexError when the tensor has fewer rows) and cut to
  \<^verbatim>\<open>[:num_frames]\<close>, which clips at the tensor's end;
  \<^verbatim>\<open>episode_index = [start_episode_index + ep_ix] * num_frames\<close>,
  \<^verbatim>\<open>frame_index = arange(0, num_frames)\<close>, \<^verbatim>\<open>timestamp = arange(0, num_frames) / fps\<close>.
  A tensor divided by zero gives inf or nan in torch and 0 here: the model of timestamp
  is meant for \<open>fps \<noteq> 0\<close>. The observation slices are kept in a list of their own,
  while the code writes them into the same dict (\<^verbatim>\<open>ep_dict[key] = ...\<close>): the two agree
  when no observation key is the name of a column (\<open>fresh_keys\<close> below).
\<close>

definition slice_observation ::
  "nat \<Rightarrow> nat \<Rightarrow> string \<times> obs_tensor \<Rightarrow> py_error + string \<times> obs_slice" where
  "slice_observation ep_ix num_frames kt =
     bind_res (row_at (obs_frames (snd kt)) ep_ix)
       (\<lambda>fr. Inr (fst kt, \<lparr>sl_dtype = obs_dtype (snd kt), sl_shape = frame_shape (snd kt),
                            sl_frames = take num_frames fr\<rparr>))"

definition make_ep_dict ::
  "rollout_data \<Rightarrow> int \<Rightarrow> rat \<Rightarrow> nat \<Rightarrow> nat \<Rightarrow> py_error + ep_dict" where
  "make_ep_dict rollout start_episode_index fps ep_ix num_frames =
     bind_res (row_at (rd_action rollout) ep_ix) (\<lambda>a.
     bind_res (row_at (rd_done rollout) ep_ix) (\<lambda>d.
     bind_res (row_at (rd_reward rollout) ep_ix) (\<lambda>r.
     bind_res (case rd_observation rollout of None \<Rightarrow> Inl KeyError | Some obs \<Rightarrow> Inr obs) (\<lambda>obs.
     bind_res (map_res (slice_observation ep_ix num_frames) obs) (\<lambda>sl.
       Inr \<lparr>ep_action = take num_frames a,
            ep_episode_index = replicate num_frames (start_episode_index + int ep_ix),
            ep_frame_index = map int [0..<num_frames],
            ep_timestamp = map (\<lambda>k. of_nat k / fps) [0..<num_frames],
            ep_next_done = take num_frames d,
            ep_next_reward = take num_frames r,
            ep_observation = sl\<rparr>)))))"

text \<open>
  The first loop, \<^verbatim>\<open>for ep_ix in range(rollout_data["action"].shape[0])\<close>, with its
  running variables. \<^verbatim>\<open>num_frames = done_indices[ep_ix].item() + 1\<close>; the done indices
  are positions (argmax results), hence naturals.
\<close>

record compile_acc =
  ep_dicts :: "ep_dict list"
  acc_from :: "int list"
  acc_to :: "int list"
  total_frames :: nat
  data_index_from :: int

fun compile_loop ::
  "rollout_data \<Rightarrow> nat list \<Rightarrow> int \<Rightarrow> rat \<Rightarrow> nat list \<Rightarrow> compile_acc
     \<Rightarrow> py_error + compile_acc" where
  "compile_loop rollout done_indices start_episode_index fps [] acc = Inr acc"
| "compile_loop rollout done_indices start_episode_index fps (ep_ix # rest) acc =
     bind_res (row_at done_indices ep_ix) (\<lambda>d.
     bind_res (make_ep_dict rollout start_episode_index fps ep_ix (d + 1)) (\<lambda>epd.
       compile_loop rollout done_indices start_episode_index fps rest
         (acc\<lparr>ep_dicts := ep_dicts acc @ [epd],
              acc_from := acc_from acc @ [data_index_from acc],
              acc_to := acc_to acc @ [data_index_from acc + int (d + 1)],
              total_frames := total_frames acc + (d + 1),
              data_index_from := data_index_from acc + int (d + 1)\<rparr>)))"

text \<open>\<^verbatim>\<open>"image" in key\<close>\<close>

definition is_image_key :: "string \<Rightarrow> bool" where
  "is_image_key key = sublist ''image'' key"

text \<open>
  The image branch for one frame \<^verbatim>\<open>img\<close> (a view of the rollout's tensor):
  \<^verbatim>\<open>c, h, w = img.shape\<close> (ValueError unless the frame has three axes), the four
  assertions (the maximum of an empty tensor raises RuntimeError), then
  \<^verbatim>\<open>img *= 255\<close>, which multiplies in place and so writes into the rollout's tensor,
  \<^verbatim>\<open>img = img.type(torch.uint8)\<close> and \<^verbatim>\<open>PILImage.fromarray(img.permute(1, 2, 0).numpy())\<close>;
  PIL takes a three-axis 8-bit array with 2, 3 or 4 channels and raises TypeError
  for any other channel count. The result is the PIL image and the frame's new values
  in the rollout.
\<close>

definition to_uint8 :: "rat \<Rightarrow> nat" where
  "to_uint8 v = nat (\<lfloor>v\<rfloor> mod 256)"

definition permute_1_2_0 :: "nat \<Rightarrow> nat \<Rightarrow> nat \<Rightarrow> 'a list \<Rightarrow> 'a list" where
  "permute_1_2_0 c h w vals =
     concat (map (\<lambda>y. concat (map (\<lambda>x. map (\<lambda>ch. vals ! ((ch * h + y) * w + x)) [0..<c])
                                   [0..<w])) [0..<h])"

definition convert_image :: "dtype \<Rightarrow> nat list \<Rightarrow> rat list \<Rightarrow> py_error + pil_image \<times> rat list" where
  "convert_image dt shp vals =
     (case shp of
        [c, h, w] \<Rightarrow>
          if \<not> (c < h \<and> c < w) then Inl AssertionError
          else if dt \<noteq> Float32 then Inl AssertionError
          else if vals = [] then Inl RuntimeError
          else if \<not> (Max (set vals) \<le> 1) then Inl AssertionError
          else if \<not> (0 \<le> Min (set vals)) then Inl AssertionError
          else
            let scaled = map (\<lambda>v. v * 255) vals
            in if c = 2 \<or> c = 3 \<or> c = 4
               then Inr (PILImage [h, w, c] (permute_1_2_0 c h w (map to_uint8 scaled)), scaled)
               else Inl TypeError
      | _ \<Rightarrow> Inl ValueError)"

text \<open>
  The rollout's rows after the in-place multiplication: the frames that were visited
  hold the scaled values, the rest of each row is as before.
\<close>

definition write_back :: "'a list list \<Rightarrow> 'a list list \<Rightarrow> 'a list list" where
  "write_back rows written =
     map (\<lambda>i. if i < length written
               then written ! i @ drop (length (written ! i)) (rows ! i)
               else rows ! i) [0..<length rows]"

text \<open>
  The second loop for one observation key of \<^verbatim>\<open>ep_dicts[0]\<close> (the keys of
  \<^verbatim>\<open>rollout_data["observation"]\<close>, in order): \<^verbatim>\<open>torch.cat([x[key] for x in ep_dicts])\<close>,
  or, for an image key, the list of converted images of every episode in turn. A column
  of \<^verbatim>\<open>data_dict\<close> is hence a list of PIL images or a tensor, kept as its frames with
  the shape of one frame. The second component of the result is the observation
  tensor as the call leaves it.
\<close>

datatype column = ImageColumn "pil_image list" | TensorColumn "nat list" "rat list list"

fun column_length :: "column \<Rightarrow> nat" where
  "column_length (ImageColumn imgs) = length imgs"
| "column_length (TensorColumn shp frames) = length frames"

fun column_cell :: "column \<Rightarrow> nat \<Rightarrow> cell" where
  "column_cell (ImageColumn imgs) i = ImageCell (imgs ! i)"
| "column_cell (TensorColumn shp frames) i = TensorCell (frames ! i)"

definition lookup_key :: "string \<Rightarrow> ep_dict \<Rightarrow> py_error + obs_slice" where
  "lookup_key key x =
     (case map_of (ep_observation x) key of None \<Rightarrow> Inl KeyError | Some sl \<Rightarrow> Inr sl)"

definition compile_column ::
  "ep_dict list \<Rightarrow> string \<times> obs_tensor
     \<Rightarrow> py_error + (string \<times> column) \<times> (string \<times> obs_tensor)" where
  "compile_column eps kt =
     bind_res (map_res (lookup_key (fst kt)) eps) (\<lambda>slices.
       if \<not> is_image_key (fst kt)
       then Inr ((fst kt, TensorColumn (frame_shape (snd kt)) (concat (map sl_frames slices))),
                 kt)
       else
         bind_res (map_res (\<lambda>sl. map_res (convert_image (sl_dtype sl) (sl_shape sl))
                                    (sl_frames sl)) slices) (\<lambda>imgs.
           Inr ((fst kt, ImageColumn (concat (map (map fst) imgs))),
                (fst kt, (snd kt)\<lparr>obs_frames :=
                            write_back (obs_frames (snd kt)) (map (map snd) imgs)\<rparr>))))"

text \<open>
  \<^verbatim>\<open>data_dict\<close> and \<^verbatim>\<open>Dataset.from_dict(data_dict, features=features)\<close>. The
  feature of an image column is \<^verbatim>\<open>Image()\<close>; the feature of any other observation
  column is \<^verbatim>\<open>Sequence(length=data_dict[key].shape[1], feature=Value("float32"))\<close>, a
  flat sequence of floats: when the column is encoded, a frame of two or more axes is
  not such a sequence and the library raises TypeError. Columns of different lengths
  are refused when the table is assembled, after every column has been encoded.
  Otherwise there is one row per position. The action column is a tensor of one
  vector per step by its type here.
\<close>

fun flat_sequence :: "column \<Rightarrow> bool" where
  "flat_sequence (ImageColumn imgs) = True"
| "flat_sequence (TensorColumn shp frames) = (length shp = 1)"

record data_dict =
  dd_action :: "rat list list"
  dd_episode_index :: "int list"
  dd_frame_index :: "int list"
  dd_timestamp :: "rat list"
  dd_next_done :: "bool list"
  dd_next_reward :: "rat list"
  dd_observation :: "(string \<times> column) list"
  dd_index :: "int list"

definition from_dict :: "data_dict \<Rightarrow> py_error + hf_dataset" where
  "from_dict dd =
     (let n = length (dd_index dd)
      in if list_ex (\<lambda>kc. \<not> flat_sequence (snd kc)) (dd_observation dd) then Inl TypeError
         else if length (dd_action dd) = n \<and> length (dd_episode_index dd) = n
            \<and> length (dd_frame_index dd) = n \<and> length (dd_timestamp dd) = n
            \<and> length (dd_next_done dd) = n \<and> length (dd_next_reward dd) = n
            \<and> list_all (\<lambda>kc. column_length (snd kc) = n) (dd_observation dd)
         then Inr (map (\<lambda>i.
                \<lparr>row_action = dd_action dd ! i,
                 episode_index = dd_episode_index dd ! i,
                 frame_index = dd_frame_index dd ! i,
                 timestamp = dd_timestamp dd ! i,
                 next_done = dd_next_done dd ! i,
                 next_reward = dd_next_reward dd ! i,
                 row_observation = map (\<lambda>kc. (fst kc, column_cell (snd kc) i))
                                     (dd_observation dd),
                 index = dd_index dd ! i\<rparr>) [0..<n])
         else Inl ValueError)"

text \<open>
  The whole function. The fixed keys of \<^verbatim>\<open>ep_dicts[0]\<close> are concatenated column by
  column; \<^verbatim>\<open>ep_dicts[0]\<close> raises IndexError for an empty batch;
  \<^verbatim>\<open>data_dict["index"] = arange(start_data_index, start_data_index + total_frames)\<close>; the
  features are built key by key, \<^verbatim>\<open>Image()\<close> for an image key and otherwise a sequence of
  length \<^verbatim>\<open>data_dict[key].shape[1]\<close>, an IndexError for scalar frames; the action feature
  is a sequence of length \<^verbatim>\<open>data_dict["action"].shape[1]\<close>.
  The result carries the rollout as the call leaves it. When the call raises, the
  partly scaled rollout is not tracked.

  In the code the observation entries share one dictionary with the six fixed keys:
  \<^verbatim>\<open>ep_dict[key] = ...\<close> replaces a fixed column when an observation key has its name,
  and \<^verbatim>\<open>data_dict["index"]\<close> replaces an observation named "index". Here the
  observation columns are kept apart, which is the code's behaviour exactly when no
  observation key is one of these seven names: \<open>fresh_keys\<close> below, which the general
  theorems about this function assume and the example rollouts satisfy.
\<close>

definition column_names :: "string list" where
  "column_names = [''action'', ''episode_index'', ''frame_index'', ''timestamp'',
                   ''next.done'', ''next.reward'', ''index'']"

definition observation_of :: "rollout_data \<Rightarrow> (string \<times> obs_tensor) list" where
  "observation_of rollout = (case rd_observation rollout of None \<Rightarrow> [] | Some obs \<Rightarrow> obs)"

definition fresh_keys :: "rollout_data \<Rightarrow> bool" where
  "fresh_keys rollout = list_all (\<lambda>kt. fst kt \<notin> set column_names) (observation_of rollout)"

definition feature_of :: "string \<times> obs_tensor \<Rightarrow> py_error + string \<times> feature" where
  "feature_of kt =
     (if is_image_key (fst kt) then Inr (fst kt, ImageFeature)
      else case frame_shape (snd kt) of
             [] \<Rightarrow> Inl IndexError
           | a # rest \<Rightarrow> Inr (fst kt, SequenceFeature a))"

definition make_data_dict :: "compile_acc \<Rightarrow> (string \<times> column) list \<Rightarrow> int \<Rightarrow> data_dict" where
  "make_data_dict acc obs_columns start_data_index =
     \<lparr>dd_action = concat (map ep_action (ep_dicts acc)),
      dd_episode_index = concat (map ep_episode_index (ep_dicts acc)),
      dd_frame_index = concat (map ep_frame_index (ep_dicts acc)),
      dd_timestamp = concat (map ep_timestamp (ep_dicts acc)),
      dd_next_done = concat (map ep_next_done (ep_dicts acc)),
      dd_next_reward = concat (map ep_next_reward (ep_dicts acc)),
      dd_observation = obs_columns,
      dd_index = map (\<lambda>k. start_data_index + int k) [0..<total_frames acc]\<rparr>"

definition compile_episode_data ::
  "rollout_data \<Rightarrow> nat list \<Rightarrow> int \<Rightarrow> int \<Rightarrow> rat \<Rightarrow> py_error + episode_data \<times> rollout_data" where
  "compile_episode_data rollout done_indices start_episode_index start_data_index fps =
     bind_res (compile_loop rollout done_indices start_episode_index fps
                 [0..<length (rd_action rollout)]
                 \<lparr>ep_dicts = [], acc_from = [], acc_to = [], total_frames = 0,
                  data_index_from = start_data_index\<rparr>) (\<lambda>acc.
     if ep_dicts acc = [] then Inl IndexError
     else
       bind_res (map_res (compile_column (ep_dicts acc)) (observation_of rollout)) (\<lambda>cols.
       bind_res (map_res feature_of (observation_of rollout)) (\<lambda>fts.
       bind_res (from_dict (make_data_dict acc (map fst cols) start_data_index)) (\<lambda>hf.
         Inr (\<lparr>ed_hf_dataset = hf,
               ed_features =
                 \<lparr>ft_action = shape1 (dd_action (make_data_dict acc (map fst cols)
                                                   start_data_index)),
                  ft_observation = fts\<rparr>,
               ed_episode_data_index = \<lparr>index_from = acc_from acc, index_to = acc_to acc\<rparr>\<rparr>,
              rollout\<lparr>rd_observation := Some (map snd cols)\<rparr>)))))"

section \<open>Well-formed rollouts\<close>

text \<open>
  What the return of the compiler is proved from, for a rollout of batch width \<open>b\<close> and
  \<open>n\<close> steps: at least one element and one step, every per-step tensor of shape (b, n),
  non-empty action vectors of one length, every observation tensor of shape (b, n + 1) with as
  many values in a frame as its shape says, distinct observation keys, none of them a
  column name. Image frames that pass the compiler's checks are three-axis, channel
  first with 2, 3 or 4 channels, float32, non-empty and within [0, 1]; any other
  observation is a float32 tensor of one non-empty vector per step, as the flat
  sequence feature needs.
\<close>

definition valid_frames :: "string \<Rightarrow> obs_tensor \<Rightarrow> bool" where
  "valid_frames key t =
     (if is_image_key key
      then (case frame_shape t of
              [c, h, w] \<Rightarrow> c < h \<and> c < w \<and> (c = 2 \<or> c = 3 \<or> c = 4)
            | _ \<Rightarrow> False)
         \<and> obs_dtype t = Float32
         \<and> list_all (list_all (\<lambda>fr. fr \<noteq> [] \<and> list_all (\<lambda>v. 0 \<le> v \<and> v \<le> 1) fr))
              (obs_frames t)
      else length (frame_shape t) = 1 \<and> 0 < hd (frame_shape t) \<and> obs_dtype t = Float32)"

definition well_formed_rollout :: "rollout_data \<Rightarrow> nat \<Rightarrow> nat \<Rightarrow> bool" where
  "well_formed_rollout rollout b n =
     (0 < b \<and> 0 < n
      \<and> length (rd_action rollout) = b \<and> list_all (\<lambda>r. length r = n) (rd_action rollout)
      \<and> length (rd_reward rollout) = b \<and> list_all (\<lambda>r. length r = n) (rd_reward rollout)
      \<and> length (rd_success rollout) = b \<and> list_all (\<lambda>r. length r = n) (rd_success rollout)
      \<and> length (rd_done rollout) = b \<and> list_all (\<lambda>r. length r = n) (rd_done rollout)
      \<and> 0 < length (hd (hd (rd_action rollout)))
      \<and> list_all (list_all (\<lambda>a. length a = length (hd (hd (rd_action rollout)))))
           (rd_action rollout)
      \<and> distinct (map fst (observation_of rollout))
      \<and> fresh_keys rollout
      \<and> list_all (\<lambda>kt. length (obs_frames (snd kt)) = b
                       \<and> list_all (\<lambda>r. length r = Suc n) (obs_frames (snd kt))
                       \<and> list_all (list_all (\<lambda>fr. length fr = prod_list (frame_shape (snd kt))))
                            (obs_frames (snd kt)))
           (observation_of rollout))"

text \<open>The \<^verbatim>\<open>ep_dict\<close> of element \<open>ep_ix\<close> with \<open>num_frames\<close> frames, written out.\<close>

definition episode_of ::
  "rollout_data \<Rightarrow> int \<Rightarrow> rat \<Rightarrow> nat \<Rightarrow> nat \<Rightarrow> ep_dict" where
  "episode_of rollout start_episode_index fps ep_ix num_frames =
     \<lparr>ep_action = take num_frames (rd_action rollout ! ep_ix),
      ep_episode_index = replicate num_frames (start_episode_index + int ep_ix),
      ep_frame_index = map int [0..<num_frames],
      ep_timestamp = map (\<lambda>k. of_nat k / fps) [0..<num_frames],
      ep_next_done = take num_frames (rd_done rollout ! ep_ix),
      ep_next_reward = take num_frames (rd_reward rollout ! ep_ix),
      ep_observation = map (\<lambda>kt. (fst kt, \<lparr>sl_dtype = obs_dtype (snd kt),
                                   sl_shape = frame_shape (snd kt),
                                   sl_frames = take num_frames (obs_frames (snd kt) ! ep_ix)\<rparr>))
                         (observation_of rollout)\<rparr>"

text \<open>The view of an observation tensor that the \<^verbatim>\<open>ep_dict\<close> of element \<open>i\<close> holds.\<close>

definition slice_of :: "obs_tensor \<Rightarrow> nat list \<Rightarrow> nat \<Rightarrow> obs_slice" where
  "slice_of t di i = \<lparr>sl_dtype = obs_dtype t, sl_shape = frame_shape t,
                       sl_frames = take (di ! i + 1) (obs_frames t ! i)\<rparr>"

text \<open>The number of frames of the episodes before element \<open>i\<close>.\<close>

definition frames_before :: "nat list \<Rightarrow> nat \<Rightarrow> nat" where
  "frames_before done_indices i = sum_list (map Suc (take i done_indices))"

text \<open>The rows \<^verbatim>\<open>Dataset.from_dict\<close> builds, and the columns a compiled dataset holds.\<close>

definition rows_of :: "data_dict \<Rightarrow> hf_dataset" where
  "rows_of dd = map (\<lambda>i.
      \<lparr>row_action = dd_action dd ! i,
       episode_index = dd_episode_index dd ! i,
       frame_index = dd_frame_index dd ! i,
       timestamp = dd_timestamp dd ! i,
       next_done = dd_next_done dd ! i,
       next_reward = dd_next_reward dd ! i,
       row_observation = map (\<lambda>kc. (fst kc, column_cell (snd kc) i)) (dd_observation dd),
       index = dd_index dd ! i\<rparr>) [0..<length (dd_index dd)]"

definition compiled_rows_ok ::
  "rollout_data \<Rightarrow> nat list \<Rightarrow> int \<Rightarrow> int \<Rightarrow> rat \<Rightarrow> nat \<Rightarrow> hf_dataset \<Rightarrow> bool" where
  "compiled_rows_ok rollout di sei sdi fps b hf =
     (length hf = frames_before di b
      \<and> map row_action hf = concat (map (\<lambda>i. take (di ! i + 1) (rd_action rollout ! i)) [0..<b])
      \<and> map episode_index hf = concat (map (\<lambda>i. replicate (di ! i + 1) (sei + int i)) [0..<b])
      \<and> map frame_index hf = concat (map (\<lambda>i. map int [0..<di ! i + 1]) [0..<b])
      \<and> map timestamp hf = concat (map (\<lambda>i. map (\<lambda>k. of_nat k / fps) [0..<di ! i + 1]) [0..<b])
      \<and> map index hf = map (\<lambda>k. sdi + int k) [0..<frames_before di b])"

text \<open>
  Example rollouts: two elements over five steps that become done at steps 2 and 4, with
  a state observation; and one element over one step with a 3 x 4 x 4 image observation
  whose two frames are uniformly 1/2 and 1/4.
\<close>

definition example_rollout :: rollout_data where
  "example_rollout =
     \<lparr>rd_action = replicate 2 (map (\<lambda>s. [of_nat s]) [0..<5]),
      rd_reward = replicate 2 (replicate 5 1),
      rd_success = replicate 2 (replicate 5 False),
      rd_done = [[False, False, True, True, True], [False, False, False, False, True]],
      rd_observation = Some [(''observation.state'',
         \<lparr>obs_dtype = Float32, frame_shape = [1],
          obs_frames = replicate 2 (map (\<lambda>s. [of_nat s]) [0..<6])\<rparr>)]\<rparr>"

definition image_rollout :: rollout_data where
  "image_rollout =
     \<lparr>rd_action = [[[0]]],
      rd_reward = [[1]],
      rd_success = [[False]],
      rd_done = [[True]],
      rd_observation = Some [(''observation.image'',
         \<lparr>obs_dtype = Float32, frame_shape = [3, 4, 4],
          obs_frames = [[replicate 48 (1 / 2), replicate 48 (1 / 4)]]\<rparr>)]\<rparr>"

text \<open>The example rollout with a state observation of 2 x 2 frames instead.\<close>

definition nested_state_rollout :: rollout_data where
  "nested_state_rollout =
     example_rollout\<lparr>rd_observation := Some [(''observation.state'',
         \<lparr>obs_dtype = Float32, frame_shape = [2, 2],
          obs_frames = replicate 2 (replicate 6 [0, 0, 0, 0])\<rparr>)]\<rparr>"

section \<open>Evaluation (eval_policy)\<close>

text \<open>
  The vectorised environment and the policy are external. To eval_policy they are a
  batch width (\<^verbatim>\<open>env.num_envs\<close>), a frame rate
  (\<^verbatim>\<open>env.unwrapped.metadata["render_fps"]\<close>) and the call
  \<^verbatim>\<open>rollout(env, policy, seeds=seeds, return_observations=return_episode_data)\<close>, which
  depends on and changes the state \<open>'w\<close> of environment and policy and either raises
  or returns the rollout's tensors.
\<close>

record 'w vector_env =
  num_envs :: nat
  render_fps :: rat
  run_rollout :: "'w \<Rightarrow> int list \<Rightarrow> bool \<Rightarrow> (py_error + rollout_data) \<times> 'w"

text \<open>
  The returned dictionary, without the two wall-clock entries. The model covers the
  call with \<^verbatim>\<open>max_episodes_rendered = 0\<close> (the default): no frame is rendered and no
  video thread started.
\<close>

record per_episode_info =
  episode_ix :: nat
  sum_reward :: rat
  max_reward :: rat
  success :: bool
  seed :: int

record aggregated_info =
  avg_sum_reward :: rat
  avg_max_reward :: rat
  pc_success :: rat

record eval_info =
  per_episode :: "per_episode_info list"
  aggregated :: aggregated_info
  episodes :: "episode_data option"

text \<open>The running lists of the batch loop, and the state of environment and policy.\<close>

record 'w eval_state =
  sum_rewards :: "rat list"
  max_rewards :: "rat list"
  all_successes :: "bool list"
  all_seeds :: "int list"
  episode_data :: "episode_data option"
  env_state :: 'w

text \<open>
  \<^verbatim>\<open>n_batches = n_episodes // env.num_envs + int((n_episodes % env.num_envs) != 0)\<close>
\<close>

definition n_batches_of :: "nat \<Rightarrow> nat \<Rightarrow> py_error + nat" where
  "n_batches_of n_episodes n_envs =
     (if n_envs = 0 then Inl ZeroDivisionError
      else Inr (n_episodes div n_envs + (if n_episodes mod n_envs \<noteq> 0 then 1 else 0)))"

text \<open>
  \<^verbatim>\<open>tensor * mask\<close> for tensors of equal shape (broadcasting over axes of size one is
  not modelled: any other pair of shapes raises), and the einops reductions over the
  step axis: "sum" is \<open>sum_list\<close>, "max" needs a non-empty row, "any" is true for a row
  with a non-zero entry.
\<close>

definition mul_mask :: "rat list list \<Rightarrow> int list list \<Rightarrow> py_error + rat list list" where
  "mul_mask t msk =
     (if map length t = map length msk
      then Inr (map2 (map2 (\<lambda>x m. x * of_int m)) t msk)
      else Inl RuntimeError)"

definition reduce_max :: "rat list \<Rightarrow> py_error + rat" where
  "reduce_max row = (if row = [] then Inl ValueError else Inr (Max (set row)))"

definition reduce_any :: "rat list \<Rightarrow> bool" where
  "reduce_any row = list_ex (\<lambda>v. v \<noteq> 0) row"

text \<open>
  \<^verbatim>\<open>seeds = range(start_seed + (batch_ix * env.num_envs),
                 start_seed + ((batch_ix + 1) * env.num_envs))\<close>
\<close>

definition batch_seeds :: "int \<Rightarrow> nat \<Rightarrow> nat \<Rightarrow> int list" where
  "batch_seeds start_seed n_envs batch_ix =
     map (\<lambda>k. start_seed + int (batch_ix * n_envs) + int k) [0..<n_envs]"

text \<open>
  The else-branch of the accumulation: the three sanity checks, then
  \<^verbatim>\<open>concatenate_datasets\<close> and \<^verbatim>\<open>torch.cat\<close> of the index tensors.
  \<^verbatim>\<open>concatenate_datasets\<close> raises ValueError when a key has one feature in the first
  dataset and another in the second; a key of one dataset only is kept, and reads None
  in the rows of the other, which the rows here show as its absence.
\<close>

definition aligned :: "dataset_features \<Rightarrow> dataset_features \<Rightarrow> bool" where
  "aligned f g =
     (ft_action f = ft_action g
      \<and> list_all (\<lambda>kf. case map_of (ft_observation f) (fst kf) of
                         None \<Rightarrow> True
                       | Some x \<Rightarrow> x = snd kf) (ft_observation g))"

definition merge_features :: "dataset_features \<Rightarrow> dataset_features \<Rightarrow> dataset_features" where
  "merge_features f g =
     \<lparr>ft_action = ft_action f,
      ft_observation = ft_observation f
         @ filter (\<lambda>kf. fst kf \<notin> set (map fst (ft_observation f))) (ft_observation g)\<rparr>"

definition concat_episode_data :: "episode_data \<Rightarrow> episode_data \<Rightarrow> py_error + episode_data" where
  "concat_episode_data ed this =
     bind_res (py_get (map episode_index (ed_hf_dataset ed)) (- 1)) (\<lambda>last_ep.
     bind_res (py_get (map episode_index (ed_hf_dataset this)) 0) (\<lambda>first_ep.
     if last_ep + 1 \<noteq> first_ep then Inl AssertionError
     else
     bind_res (py_get (map index (ed_hf_dataset ed)) (- 1)) (\<lambda>last_ix.
     bind_res (py_get (map index (ed_hf_dataset this)) 0) (\<lambda>first_ix.
     if last_ix + 1 \<noteq> first_ix then Inl AssertionError
     else
     bind_res (py_get (index_to (ed_episode_data_index ed)) (- 1)) (\<lambda>last_to.
     bind_res (py_get (index_from (ed_episode_data_index this)) 0) (\<lambda>first_from.
     if last_to \<noteq> first_from then Inl AssertionError
     else if \<not> aligned (ed_features ed) (ed_features this) then Inl ValueError
     else Inr \<lparr>ed_hf_dataset = ed_hf_dataset ed @ ed_hf_dataset this,
               ed_features = merge_features (ed_features ed) (ed_features this),
               ed_episode_data_index =
                 \<lparr>index_from = index_from (ed_episode_data_index ed)
                                @ index_from (ed_episode_data_index this),
                  index_to = index_to (ed_episode_data_index ed)
                                @ index_to (ed_episode_data_index this)\<rparr>\<rparr>))))))"

text \<open>
  \<^verbatim>\<open>this_episode_data = _compile_episode_data(rollout_data, done_indices,
      start_episode_index=batch_ix * env.num_envs,
      start_data_index=(0 if episode_data is None
                        else episode_data["episode_data_index"]["to"][-1].item()),
      fps=env.unwrapped.metadata["render_fps"])\<close>
  and its accumulation.
\<close>

definition accumulate_episode_data ::
  "'w vector_env \<Rightarrow> nat \<Rightarrow> rollout_data \<Rightarrow> nat list \<Rightarrow> episode_data option
     \<Rightarrow> py_error + episode_data option" where
  "accumulate_episode_data env batch_ix rollout done_indices acc =
     bind_res (case acc of None \<Rightarrow> Inr 0
               | Some ed \<Rightarrow> py_get (index_to (ed_episode_data_index ed)) (- 1)) (\<lambda>start_data_index.
     bind_res (compile_episode_data rollout done_indices (int (batch_ix * num_envs env))
                 start_data_index (render_fps env)) (\<lambda>compiled.
     case acc of
       None \<Rightarrow> Inr (Some (fst compiled))
     | Some ed \<Rightarrow> bind_res (concat_episode_data ed (fst compiled)) (\<lambda>ed'. Inr (Some ed'))))"

text \<open>
  One pass of the batch loop. With no \<^verbatim>\<open>start_seed\<close> the seed range adds an int to
  None: a TypeError.
\<close>

definition eval_batch ::
  "'w vector_env \<Rightarrow> bool \<Rightarrow> int option \<Rightarrow> nat \<Rightarrow> 'w eval_state \<Rightarrow> py_error + 'w eval_state" where
  "eval_batch env return_episode_data start_seed batch_ix st =
     (case start_seed of
        None \<Rightarrow> Inl TypeError
      | Some s \<Rightarrow>
          let seeds = batch_seeds s (num_envs env) batch_ix;
              out = run_rollout env (env_state st) seeds return_episode_data
          in bind_res (fst out) (\<lambda>rollout_data.
             bind_res (resolve_boundaries (rd_done rollout_data)) (\<lambda>bounds.
             bind_res (mul_mask (rd_reward rollout_data) (snd bounds)) (\<lambda>masked_reward.
             bind_res (map_res reduce_max masked_reward) (\<lambda>batch_max_rewards.
             bind_res (mul_mask (map (map of_bool) (rd_success rollout_data)) (snd bounds))
               (\<lambda>masked_success.
             bind_res (if return_episode_data
                       then accumulate_episode_data env batch_ix rollout_data (fst bounds)
                              (episode_data st)
                       else Inr (episode_data st)) (\<lambda>episode_data'.
               Inr \<lparr>sum_rewards = sum_rewards st @ map sum_list masked_reward,
                    max_rewards = max_rewards st @ batch_max_rewards,
                    all_successes = all_successes st @ map reduce_any masked_success,
                    all_seeds = all_seeds st @ seeds,
                    episode_data = episode_data',
                    env_state = snd out\<rparr>)))))))"

fun eval_loop ::
  "'w vector_env \<Rightarrow> bool \<Rightarrow> int option \<Rightarrow> nat list \<Rightarrow> 'w eval_state \<Rightarrow> py_error + 'w eval_state" where
  "eval_loop env return_episode_data start_seed [] st = Inr st"
| "eval_loop env return_episode_data start_seed (batch_ix # rest) st =
     bind_res (eval_batch env return_episode_data start_seed batch_ix st)
       (eval_loop env return_episode_data start_seed rest)"

text \<open>
  After the loop: the per-episode list zips the first \<^verbatim>\<open>n_episodes\<close> entries of the
  four lists (\<^verbatim>\<open>strict=True\<close>: ValueError on unequal lengths) under \<^verbatim>\<open>enumerate\<close>; the
  aggregated entries are \<^verbatim>\<open>np.nanmean\<close> over the same prefixes (no NaN among rationals;
  the mean of no entries is nan in numpy and 0 here); the time per episode divides by
  \<^verbatim>\<open>n_episodes\<close>, a ZeroDivisionError for 0.
\<close>

definition zip_strict :: "'a list \<Rightarrow> 'b list \<Rightarrow> py_error + ('a \<times> 'b) list" where
  "zip_strict xs ys = (if length xs = length ys then Inr (zip xs ys) else Inl ValueError)"

definition nanmean :: "rat list \<Rightarrow> rat" where
  "nanmean xs = sum_list xs / of_nat (length xs)"

definition compile_info :: "nat \<Rightarrow> 'w eval_state \<Rightarrow> py_error + eval_info" where
  "compile_info n_episodes st =
     bind_res (zip_strict (take n_episodes (sum_rewards st)) (take n_episodes (max_rewards st)))
       (\<lambda>z1.
     bind_res (zip_strict z1 (take n_episodes (all_successes st))) (\<lambda>z2.
     bind_res (zip_strict z2 (take n_episodes (all_seeds st))) (\<lambda>z3.
     if n_episodes = 0 then Inl ZeroDivisionError
     else Inr \<lparr>per_episode =
                 map (\<lambda>ie. \<lparr>episode_ix = fst ie,
                             sum_reward = fst (fst (fst (snd ie))),
                             max_reward = snd (fst (fst (snd ie))),
                             success = snd (fst (snd ie)),
                             seed = snd (snd ie)\<rparr>) (enumerate 0 z3),
               aggregated =
                 \<lparr>avg_sum_reward = nanmean (take n_episodes (sum_rewards st)),
                  avg_max_reward = nanmean (take n_episodes (max_rewards st)),
                  pc_success = nanmean (map of_bool (take n_episodes (all_successes st))) * 100\<rparr>,
               episodes = episode_data st\<rparr>)))"

definition eval_policy ::
  "'w vector_env \<Rightarrow> 'w \<Rightarrow> nat \<Rightarrow> bool \<Rightarrow> int option \<Rightarrow> py_error + eval_info \<times> 'w" where
  "eval_policy env w n_episodes return_episode_data start_seed =
     bind_res (n_batches_of n_episodes (num_envs env)) (\<lambda>n_batches.
     bind_res (eval_loop env return_episode_data start_seed [0..<n_batches]
                 \<lparr>sum_rewards = [], max_rewards = [], all_successes = [], all_seeds = [],
                  episode_data = None, env_state = w\<rparr>) (\<lambda>st.
     bind_res (compile_info n_episodes st) (\<lambda>info. Inr (info, env_state st))))"

text \<open>
  What one batch adds to the metric lists, written without the error plumbing: the sums,
  the maxima, the successes and the done indices.
\<close>

definition batch_metrics :: "rollout_data \<Rightarrow> rat list \<times> rat list \<times> bool list \<times> nat list" where
  "batch_metrics rollout =
     (let di = map (\<lambda>row. if True \<in> set row then first_true row else 0) (rd_done rollout);
          msk = make_mask (shape1 (rd_done rollout)) di;
          mr = map2 (map2 (\<lambda>x m. x * of_int m)) (rd_reward rollout) msk;
          ms = map2 (map2 (\<lambda>x m. x * of_int m)) (map (map of_bool) (rd_success rollout)) msk
      in (map sum_list mr, map (\<lambda>row. Max (set row)) mr, map reduce_any ms, di))"

text \<open>
  The per-episode metrics as the specification describes them, stated apart from the
  batch loop and compared with it below: the done index of an element is the position
  of the first true entry of its done row (0 for a row that never becomes done, the
  argmax of a constant row); the rewards and successes of an element count up to and
  including the step after its done index; the rewards past that step enter the
  maximum as zeros, since the product with the mask keeps them in the row.
\<close>

definition done_index_of :: "bool list \<Rightarrow> nat" where
  "done_index_of row = (if True \<in> set row then first_true row else 0)"

definition zero_after :: "nat \<Rightarrow> rat list \<Rightarrow> rat list" where
  "zero_after d row = take (d + 2) row @ replicate (length row - (d + 2)) 0"

definition episode_metrics :: "rollout_data \<Rightarrow> (rat \<times> rat \<times> bool) list" where
  "episode_metrics rollout =
     map (\<lambda>i. let d = done_index_of (rd_done rollout ! i)
              in (sum_list (take (d + 2) (rd_reward rollout ! i)),
                  Max (set (zero_after d (rd_reward rollout ! i))),
                  True \<in> set (take (d + 2) (rd_success rollout ! i))))
       [0..<length (rd_done rollout)]"

text \<open>
  The rollouts of one evaluation in the order they are run: each starts in the state the
  one before left, and the list ends at the first rollout that raises.
\<close>

fun rollouts_from :: "'w vector_env \<Rightarrow> bool \<Rightarrow> 'w \<Rightarrow> int list list \<Rightarrow> rollout_data list" where
  "rollouts_from env return_episode_data w [] = []"
| "rollouts_from env return_episode_data w (seeds # rest) =
     (case fst (run_rollout env w seeds return_episode_data) of
        Inl e \<Rightarrow> []
      | Inr rollout \<Rightarrow>
          rollout # rollouts_from env return_episode_data
                      (snd (run_rollout env w seeds return_episode_data)) rest)"

text \<open>
  The features a rollout's dataset gets: the length of its action vectors, and for every
  observation key \<^verbatim>\<open>Image()\<close> or the length of its vectors.
\<close>

definition rollout_features :: "rollout_data \<Rightarrow> dataset_features" where
  "rollout_features rollout =
     \<lparr>ft_action = length (hd (hd (rd_action rollout))),
      ft_observation =
        map (\<lambda>kt. (fst kt, if is_image_key (fst kt) then ImageFeature
                            else SequenceFeature (hd (frame_shape (snd kt)))))
          (observation_of rollout)\<rparr>"

text \<open>
  The accumulated episode data after \<open>k\<close> episodes, as the sanity checks of the next
  batch need it: none before the first batch; afterwards non-empty, of the given
  features, its last episode_index \<open>k - 1\<close> and its last index one below its last \<open>to\<close>.
\<close>

definition episodes_through :: "dataset_features \<Rightarrow> nat \<Rightarrow> episode_data option \<Rightarrow> bool" where
  "episodes_through sch k acc =
     (case acc of
        None \<Rightarrow> k = 0
      | Some ed \<Rightarrow> 0 < k \<and> ed_features ed = sch
          \<and> ed_hf_dataset ed \<noteq> [] \<and> index_to (ed_episode_data_index ed) \<noteq> []
          \<and> index_from (ed_episode_data_index ed) \<noteq> []
          \<and> episode_index (last (ed_hf_dataset ed)) + 1 = int k
          \<and> index (last (ed_hf_dataset ed)) + 1 = last (index_to (ed_episode_data_index ed)))"

text \<open>Without \<^verbatim>\<open>return_episode_data\<close> nothing is accumulated.\<close>

definition episodes_kept ::
  "dataset_features \<Rightarrow> bool \<Rightarrow> nat \<Rightarrow> episode_data option \<Rightarrow> bool" where
  "episodes_kept sch return_episode_data k acc =
     (if return_episode_data then episodes_through sch k acc else acc = None)"

text \<open>
  The environment never raises in a rollout and returns well-formed tensors of its batch
  width and, when observations are asked for, observations of valid frames and always
  the same features: the same action length, observation keys and vector lengths in
  every rollout, as the concatenation of the datasets needs.
\<close>

definition rollouts_of_features :: "'w vector_env \<Rightarrow> bool \<Rightarrow> dataset_features \<Rightarrow> bool" where
  "rollouts_of_features env return_episode_data sch =
     (\<forall>w seeds. \<exists>rollout w'.
         run_rollout env w seeds return_episode_data = (Inr rollout, w')
       \<and> (\<exists>n. well_formed_rollout rollout (num_envs env) n)
       \<and> (return_episode_data \<longrightarrow>
            (\<exists>obs. rd_observation rollout = Some obs
               \<and> list_all (\<lambda>kt. valid_frames (fst kt) (snd kt)) obs)
            \<and> rollout_features rollout = sch))"

definition rollouts_well_formed :: "'w vector_env \<Rightarrow> bool \<Rightarrow> bool" where
  "rollouts_well_formed env return_episode_data =
     (\<exists>sch. rollouts_of_features env return_episode_data sch)"

text \<open>
  An evaluation that compiles episode data stays within the model of the compiler when
  the frame rate is positive and no rollout of the environment names an observation
  like a column.
\<close>

definition within_compiler_model :: "'w vector_env \<Rightarrow> bool \<Rightarrow> bool" where
  "within_compiler_model env return_episode_data =
     (if return_episode_data
      then 0 < render_fps env
         \<and> (\<forall>w seeds. case fst (run_rollout env w seeds True) of
                          Inl e \<Rightarrow> True
                        | Inr rollout \<Rightarrow> fresh_keys rollout)
      else True)"

text \<open>The state of environment and policy after rollouts with the given seed lists, in order.\<close>

fun run_all :: "'w vector_env \<Rightarrow> bool \<Rightarrow> 'w \<Rightarrow> int list list \<Rightarrow> 'w" where
  "run_all env return_episode_data w [] = w"
| "run_all env return_episode_data w (seeds # rest) =
     run_all env return_episode_data (snd (run_rollout env w seeds return_episode_data)) rest"

text \<open>
  An example environment of width 2 whose state counts the rollouts it has run: the
  rollout run in state \<open>w\<close> returns the example rollout with every reward \<open>w + 1\<close>, and
  with the observations only when they are asked for.
\<close>

definition example_env :: "nat vector_env" where
  "example_env = \<lparr>num_envs = 2, render_fps = 10,
     run_rollout = (\<lambda>w seeds return_observations.
       (Inr (example_rollout\<lparr>rd_reward := replicate 2 (replicate 5 (of_nat (Suc w))),
              rd_observation := (if return_observations then rd_observation example_rollout
                                 else None)\<rparr>), Suc w))\<rparr>"

section \<open>Properties\<close>

lemma bind_res_Inr [simp]: "bind_res (Inr v) f = f v"
  by (simp add: bind_res_def)

lemma bind_res_Inl [simp]: "bind_res (Inl e) f = Inl e"
  by (simp add: bind_res_def)

lemma bind_res_eq_Inr: "bind_res m f = Inr y \<longleftrightarrow> (\<exists>x. m = Inr x \<and> f x = Inr y)"
  by (cases m) simp_all

subsection \<open>Sampling weight\<close>

lemma online_weight_value:
  assumes "0 < n_on" "0 \<le> pc" "pc < 1"
  shows "calculate_online_sample_weight n_off n_on pc
           = Inr (of_int n_off * pc / (of_int n_on * (1 - pc)))"
proof -
  have "(of_int n_on :: rat) * (pc - 1) \<noteq> 0" using assms by simp
  moreover have "- (of_int n_off * pc) / (of_int n_on * (pc - 1))
      = of_int n_off * pc / (of_int n_on * (1 - pc))"
    by (metis minus_diff_eq minus_divide_divide mult_minus_right)
  ultimately show ?thesis
    using assms by (simp add: calculate_online_sample_weight_def)
qed

lemma online_share:
  fixes a b pc :: rat
  assumes "0 < b" "pc < 1"
  shows "b * (a * pc / (b * (1 - pc))) = a * pc / (1 - pc)"
    and "a + a * pc / (1 - pc) = a / (1 - pc)"
  using assms by (simp_all add: field_simps)

lemma online_weight_solves:
  assumes "0 < n_off" "0 < n_on" "0 \<le> pc" "pc < 1"
  shows "\<exists>w. calculate_online_sample_weight n_off n_on pc = Inr w
      \<and> of_int n_off + of_int n_on * w \<noteq> 0
      \<and> of_int n_on * w / (of_int n_off + of_int n_on * w) = pc"
proof -
  let ?a = "of_int n_off :: rat" and ?b = "of_int n_on :: rat"
  let ?w = "?a * pc / (?b * (1 - pc))"
  have a: "0 < ?a" and b: "0 < ?b" using assms by simp_all
  have den: "?a + ?b * ?w = ?a / (1 - pc)"
    using online_share [OF b assms(4), of ?a] by simp
  have "?a / (1 - pc) \<noteq> 0" using a assms by simp
  moreover have "?b * ?w / (?a / (1 - pc)) = pc"
    using online_share(1) [OF b assms(4), of ?a] a assms by simp
  ultimately show ?thesis
    using online_weight_value [OF assms(2-4), of n_off] den by simp
qed

lemma online_weight_cross:
  assumes "0 < n_on" "0 \<le> pc" "pc < 1"
  shows "\<exists>w. calculate_online_sample_weight n_off n_on pc = Inr w
      \<and> of_int n_on * w = pc * (of_int n_off + of_int n_on * w)"
proof -
  let ?a = "of_int n_off :: rat" and ?b = "of_int n_on :: rat"
  let ?w = "?a * pc / (?b * (1 - pc))"
  have b: "0 < ?b" using assms by simp
  have "?b * ?w = pc * (?a + ?b * ?w)"
    unfolding online_share [OF b assms(3)] using assms by (simp add: field_simps)
  then show ?thesis
    using online_weight_value [OF assms, of n_off] by simp
qed

text \<open>
  C3, as stated: for every \<open>n_off \<ge> 0\<close>, \<open>n_on > 0\<close> and \<open>pc_on\<close> in [0, 1) the returned
  weight \<open>w\<close> satisfies \<open>n_on * w / (n_off + n_on * w) = pc_on\<close>. With no offline sample
  the weight is 0, the denominator \<open>n_off + n_on * w\<close> is 0 and the quotient is not
  \<open>pc_on\<close>: the statement fails at \<open>n_off = 0\<close>, \<open>n_on = 1\<close>, \<open>pc_on = 1/2\<close>.
\<close>

theorem online_weight_without_offline_counterexample:
  "calculate_online_sample_weight 0 1 (1 / 2) = Inr 0
   \<and> (of_int 0 + of_int 1 * 0 = (0 :: rat))
   \<and> (of_int 1 * 0 / (of_int 0 + of_int 1 * 0) \<noteq> (1 / 2 :: rat))"
  by (simp add: calculate_online_sample_weight_def)

text \<open>
  C3, amended: for every \<open>n_off > 0\<close>, \<open>n_on > 0\<close> and \<open>pc_on\<close> in [0, 1),
  calculate_online_sample_weight returns a weight \<open>w\<close> with a non-zero denominator
  \<open>n_off + n_on * w\<close> and \<open>n_on * w / (n_off + n_on * w) = pc_on\<close>; for every
  \<open>n_off\<close> (zero included) the cross-multiplied equation
  \<open>n_on * w = pc_on * (n_off + n_on * w)\<close> holds; \<open>pc_on = 0\<close> yields \<open>w = 0\<close>, and
  \<open>n_off = 100\<close>, \<open>n_on = 50\<close>, \<open>pc_on = 1/2\<close> yields \<open>w = 2\<close>.
\<close>

theorem online_weight_solves_mixing_equation:
  "(0 < n_off \<and> 0 < n_on \<and> 0 \<le> pc \<and> pc < 1 \<longrightarrow>
      (\<exists>w. calculate_online_sample_weight n_off n_on pc = Inr w
         \<and> of_int n_off + of_int n_on * w \<noteq> 0
         \<and> of_int n_on * w / (of_int n_off + of_int n_on * w) = pc))
   \<and> (0 < n_on \<and> 0 \<le> pc \<and> pc < 1 \<longrightarrow>
      (\<exists>w. calculate_online_sample_weight n_off n_on pc = Inr w
         \<and> of_int n_on * w = pc * (of_int n_off + of_int n_on * w)))
   \<and> (0 < n_on \<longrightarrow> calculate_online_sample_weight n_off n_on 0 = Inr 0)
   \<and> calculate_online_sample_weight 100 50 (1 / 2) = Inr 2"
proof (intro conjI impI)
  assume "0 < n_off \<and> 0 < n_on \<and> 0 \<le> pc \<and> pc < 1"
  then show "\<exists>w. calculate_online_sample_weight n_off n_on pc = Inr w
         \<and> of_int n_off + of_int n_on * w \<noteq> 0
         \<and> of_int n_on * w / (of_int n_off + of_int n_on * w) = pc"
    using online_weight_solves by blast
next
  assume "0 < n_on \<and> 0 \<le> pc \<and> pc < 1"
  then show "\<exists>w. calculate_online_sample_weight n_off n_on pc = Inr w
         \<and> of_int n_on * w = pc * (of_int n_off + of_int n_on * w)"
    using online_weight_cross by blast
next
  assume "0 < n_on"
  then show "calculate_online_sample_weight n_off n_on 0 = Inr 0"
    by (simp add: calculate_online_sample_weight_def)
next
  show "calculate_online_sample_weight 100 50 (1 / 2) = Inr 2"
    by (simp add: calculate_online_sample_weight_def)
qed

theorem online_weight_solves_mixing_equation_witness:
  "\<exists>w. calculate_online_sample_weight 100 50 (1 / 2) = Inr w
     \<and> 100 + 50 * w \<noteq> 0 \<and> 50 * w / (100 + 50 * w) = 1 / 2"
  using online_weight_solves_mixing_equation [of 100 50 "1 / 2"] by simp

subsection \<open>Episode boundaries\<close>

lemma map_res_Inr:
  "(\<And>x. x \<in> set xs \<Longrightarrow> f x = Inr (g x)) \<Longrightarrow> map_res f xs = Inr (map g xs)"
  by (induction xs) simp_all

lemma map_res_eq_Inr: "map_res f xs = Inr ys \<longleftrightarrow> list_all2 (\<lambda>x y. f x = Inr y) xs ys"
proof (induction xs arbitrary: ys)
  case Nil
  show ?case by auto
next
  case (Cons x xs)
  show ?case by (auto simp: bind_res_eq_Inr Cons.IH list_all2_Cons1)
qed

lemma argmax_from_top: "argmax_from (map of_bool r) i 1 bi = bi"
  by (induction r arbitrary: i) simp_all

lemma argmax_from_zero:
  "argmax_from (map of_bool r) i 0 bi = (if True \<in> set r then i + first_true r else bi)"
  by (induction r arbitrary: i bi) (auto simp: argmax_from_top first_true_def)

lemma argmax_of_bool:
  "row \<noteq> [] \<Longrightarrow> argmax (map of_bool row) = Inr (if True \<in> set row then first_true row else 0)"
  by (cases row) (auto simp: argmax_def argmax_from_top argmax_from_zero first_true_def)

lemma first_true_less: "True \<in> set row \<Longrightarrow> first_true row < length row"
  unfolding first_true_def by (induction row) auto

lemma first_true_hit: "True \<in> set row \<Longrightarrow> row ! first_true row"
  unfolding first_true_def by (induction row) auto

lemma first_true_before: "s < first_true row \<Longrightarrow> \<not> row ! s"
  unfolding first_true_def
proof (induction row arbitrary: s)
  case Nil
  then show ?case by simp
next
  case (Cons x xs)
  then show ?case by (cases s) (auto split: if_splits)
qed

lemma count_mask_row:
  "length (filter (\<lambda>m. m \<noteq> 0) (map (\<lambda>s. if s \<le> d + 1 then 1 else (0::int)) [0..<n])) = min (d + 2) n"
proof (induction n)
  case 0
  show ?case by simp
next
  case (Suc n)
  then show ?case by (auto simp: min_def)
qed


lemma done_indices_of_rows:
  assumes "\<forall>row \<in> set d. row \<noteq> []"
  shows "done_indices_of d = Inr (map (\<lambda>row. if True \<in> set row then first_true row else 0) d)"
  unfolding done_indices_of_def using assms
  by (intro map_res_Inr) (simp add: argmax_of_bool)

lemma resolve_boundaries_rows:
  assumes "\<forall>row \<in> set d. row \<noteq> []"
  shows "resolve_boundaries d =
     Inr (map (\<lambda>row. if True \<in> set row then first_true row else 0) d,
          make_mask (shape1 d) (map (\<lambda>row. if True \<in> set row then first_true row else 0) d))"
  by (simp add: resolve_boundaries_def done_indices_of_rows [OF assms])

text \<open>
  C4: for a cumulative done tensor of shape (batch, n_steps) in which every row holds a
  true entry, the boundary resolution returns one done index per row (the position of
  the row's first true entry) and a mask of the same shape; the mask marks step \<open>s\<close> of
  row \<open>i\<close> iff \<open>s \<le> done_index[i] + 1\<close>, so row \<open>i\<close> has exactly
  \<open>min (done_index[i] + 2) n_steps\<close> marked entries.
\<close>

theorem mask_keeps_done_step_plus_one:
  assumes "\<forall>row \<in> set d. length row = shape1 d \<and> True \<in> set row"
  shows "\<exists>di mask. resolve_boundaries d = Inr (di, mask)
      \<and> length di = length d \<and> length mask = length d
      \<and> (\<forall>i < length d.
            length (mask ! i) = shape1 d
          \<and> di ! i < shape1 d \<and> d ! i ! (di ! i) \<and> (\<forall>s < di ! i. \<not> d ! i ! s)
          \<and> (\<forall>s < shape1 d. mask ! i ! s = (if s \<le> di ! i + 1 then 1 else 0))
          \<and> length (filter (\<lambda>m. m \<noteq> 0) (mask ! i)) = min (di ! i + 2) (shape1 d))"
proof -
  let ?di = "map (\<lambda>row. if True \<in> set row then first_true row else 0) d"
  let ?mask = "make_mask (shape1 d) ?di"
  have ne: "\<forall>row \<in> set d. row \<noteq> []" using assms by auto
  have r: "resolve_boundaries d = Inr (?di, ?mask)"
    by (rule resolve_boundaries_rows [OF ne])
  have rows: "length (?mask ! i) = shape1 d
          \<and> ?di ! i < shape1 d \<and> d ! i ! (?di ! i) \<and> (\<forall>s < ?di ! i. \<not> d ! i ! s)
          \<and> (\<forall>s < shape1 d. ?mask ! i ! s = (if s \<le> ?di ! i + 1 then 1 else 0))
          \<and> length (filter (\<lambda>m. m \<noteq> 0) (?mask ! i)) = min (?di ! i + 2) (shape1 d)"
    if i: "i < length d" for i
  proof -
    have mem: "d ! i \<in> set d" using i by simp
    then have len: "length (d ! i) = shape1 d" and tr: "True \<in> set (d ! i)"
      using assms by auto
    have di: "?di ! i = first_true (d ! i)" using i tr by simp
    have mrow: "?mask ! i = map (\<lambda>s. if s \<le> ?di ! i + 1 then 1 else 0) [0..<shape1 d]"
      using i by (simp add: make_mask_def)
    show ?thesis
      unfolding mrow count_mask_row
      using first_true_less [OF tr] first_true_hit [OF tr] first_true_before [of _ "d ! i"]
      by (simp add: di len)
  qed
  show ?thesis
    using r rows by (intro exI [of _ ?di] exI [of _ ?mask]) (simp add: make_mask_def)
qed

theorem mask_keeps_done_step_plus_one_witness:
  "\<exists>di mask.
      resolve_boundaries [[False, False, True, True, True], [False, False, False, False, True]]
        = Inr (di, mask)
      \<and> di = [2, 4] \<and> mask = [[1, 1, 1, 1, 0], [1, 1, 1, 1, 1]]
      \<and> length (filter (\<lambda>m. m \<noteq> 0) (mask ! 0)) = 4
      \<and> length (filter (\<lambda>m. m \<noteq> 0) (mask ! 1)) = 5"
  using mask_keeps_done_step_plus_one
    [of "[[False, False, True, True, True], [False, False, False, False, True]]"]
  by (simp add: resolve_boundaries_def done_indices_of_def argmax_def shape1_def
      make_mask_def upt_rec)

text \<open>
  C5, as stated: a row that is false at every step gets the index of the last step as
  its done index. The argmax of an all-zero row is its first position: for one row of
  three false entries the done index is 0, not 2.
\<close>

theorem never_done_row_counterexample:
  "resolve_boundaries [[False, False, False]] = Inr ([0], [[1, 1, 0]])
   \<and> [0 :: nat] ! 0 \<noteq> length [False, False, False] - 1"
  by (simp add: resolve_boundaries_def done_indices_of_def argmax_def shape1_def
      make_mask_def upt_rec)

text \<open>
  C5, amended: for every cumulative done tensor with at least one step, the boundary
  resolution computes the done index 0 (the first step) for each row that is false at
  every step.
\<close>

theorem never_done_row_resolves_to_first_step:
  assumes "\<forall>row \<in> set d. row \<noteq> []"
  shows "\<exists>di mask. resolve_boundaries d = Inr (di, mask) \<and> length di = length d
      \<and> (\<forall>i < length d. True \<notin> set (d ! i) \<longrightarrow> di ! i = 0)"
  using resolve_boundaries_rows [OF assms] by simp

theorem never_done_row_resolves_to_first_step_witness:
  "\<exists>di mask. resolve_boundaries [[False, False, False], [False, True, True]] = Inr (di, mask)
     \<and> di ! 0 = 0 \<and> di ! 1 = 1"
  using never_done_row_resolves_to_first_step [of "[[False, False, False], [False, True, True]]"]
  by (simp add: resolve_boundaries_def done_indices_of_def argmax_def shape1_def
      make_mask_def upt_rec)

subsection \<open>Merging episodes\<close>

lemma py_get_first: "xs \<noteq> [] \<Longrightarrow> py_get (map f xs) 0 = Inr (f (hd xs))"
  by (cases xs) (simp_all add: py_get_def)

lemma py_get_last: "xs \<noteq> [] \<Longrightarrow> py_get (map f xs) (- 1) = Inr (f (last xs))"
  by (cases xs rule: rev_cases) (simp_all add: py_get_def nth_append)










text \<open>Unfolding the merge on concrete data.\<close>

lemmas merge_eval = add_episodes_inplace_def update_sampling_def extend_online_def len_online_def
  py_get_def cumsum_def shift_indices_def tensor_iadd_def calculate_online_sample_weight_def
  example_frame_def empty_world_def Let_def




text \<open>
  C8, amended: merging an empty batch raises IndexError at the first read
  (\<^verbatim>\<open>hf_dataset.select_columns("episode_index")[0]\<close>), before anything is mutated: the
  online dataset, the combined dataset's bookkeeping, the weights and the sample count
  are unchanged, but the call does not return normally.
\<close>

theorem add_episodes_empty_batch_raises:
  "add_episodes_inplace w [] edi pc = (Some IndexError, w)"
  by (simp add: add_episodes_inplace_def py_get_def)

text \<open>
  C8, as stated: merging an empty batch is a no-op. The call raises instead of
  returning.
\<close>

theorem add_episodes_empty_batch_counterexample:
  "fst (add_episodes_inplace (empty_world 4) [] \<lparr>from_ref = 0, to_ref = 0\<rparr> (1 / 2))
     = Some IndexError
   \<and> add_episodes_inplace (empty_world 4) [] \<lparr>from_ref = 0, to_ref = 0\<rparr> (1 / 2)
     \<noteq> (None, empty_world 4)"
  by (simp add: add_episodes_inplace_def py_get_def)

text \<open>
  C1 (the code diverges): the claim shifts incoming rows by one past the last
  episode_index and index stored in the online dataset. The code reads both offsets off
  the incoming batch. Online data of two episodes and three frames (last episode_index
  1, last index 2) merged with a one-frame batch: the new row gets episode_index 1 and
  index 1, where the claim gives 2 and 3.
\<close>

theorem add_episodes_shift_uses_incoming_last:
  "let w = (empty_world 4)
         \<lparr>tensors := (\<lambda>a. [])(1 := [0], 2 := [1], 3 := [0, 2], 4 := [2, 3]),
          online_dataset := \<lparr>hf_dataset = [example_frame 0 0 0, example_frame 0 1 1, example_frame 1 0 2],
                     episode_data_index = \<lparr>from_ref = 3, to_ref = 4\<rparr>\<rparr>\<rparr>;
       r = add_episodes_inplace w [example_frame 0 0 0] \<lparr>from_ref = 1, to_ref = 2\<rparr> (1 / 2)
   in fst r = None
    \<and> map episode_index (hf_dataset (online_dataset (snd r))) = [0, 0, 1, 1]
    \<and> map index (hf_dataset (online_dataset (snd r))) = [0, 1, 2, 1]"
  by (simp add: merge_eval)

text \<open>
  C2 (the code diverges): two merges into an empty online dataset, a batch of two
  episodes and three frames, then a batch of one frame. The index column ends as
  0, 1, 2, 1 (not strictly increasing), and the online dataset's episode_data_index
  still holds the first batch's ranges (0, 2) and (2, 3), which do not cover the four
  frames.
\<close>

theorem add_episodes_seq_breaks_contiguity:
  "let w = (empty_world 4)\<lparr>tensors := (\<lambda>a. [])(1 := [0], 2 := [1], 3 := [0, 2], 4 := [2, 3])\<rparr>;
       r = add_episodes_seq w
             [([example_frame 0 0 0, example_frame 0 1 1, example_frame 1 0 2],
               \<lparr>from_ref = 3, to_ref = 4\<rparr>, 1 / 2),
              ([example_frame 0 0 0], \<lparr>from_ref = 1, to_ref = 2\<rparr>, 1 / 2)]
   in fst r = None
    \<and> map episode_index (hf_dataset (online_dataset (snd r))) = [0, 0, 1, 1]
    \<and> map index (hf_dataset (online_dataset (snd r))) = [0, 1, 2, 1]
    \<and> length (hf_dataset (online_dataset (snd r))) = 4
    \<and> ranges_of (tensors (snd r)) (episode_data_index (online_dataset (snd r))) = [(0, 2), (2, 3)]"
  by (simp add: merge_eval ranges_of_def)

subsection \<open>Compiling episodes\<close>

lemma row_at_in: "i < length xs \<Longrightarrow> row_at xs i = Inr (xs ! i)"
  by (simp add: row_at_def)

lemma make_ep_dict_ok:
  assumes wf: "well_formed_rollout rollout b n" and obs: "rd_observation rollout = Some obs"
    and i: "ep_ix < b"
  shows "make_ep_dict rollout sei fps ep_ix nf = Inr (episode_of rollout sei fps ep_ix nf)"
proof -
  have o: "observation_of rollout = obs" using obs by (simp add: observation_of_def)
  have sl: "map_res (slice_observation ep_ix nf) obs
      = Inr (map (\<lambda>kt. (fst kt, \<lparr>sl_dtype = obs_dtype (snd kt), sl_shape = frame_shape (snd kt),
                 sl_frames = take nf (obs_frames (snd kt) ! ep_ix)\<rparr>)) obs)"
  proof (rule map_res_Inr)
    fix kt assume "kt \<in> set obs"
    then have "length (obs_frames (snd kt)) = b"
      using wf o by (auto simp: well_formed_rollout_def list_all_iff)
    then show "slice_observation ep_ix nf kt
        = Inr (fst kt, \<lparr>sl_dtype = obs_dtype (snd kt), sl_shape = frame_shape (snd kt),
                 sl_frames = take nf (obs_frames (snd kt) ! ep_ix)\<rparr>)"
      using i by (simp add: slice_observation_def row_at_in)
  qed
  have "ep_ix < length (rd_action rollout)" "ep_ix < length (rd_done rollout)"
      "ep_ix < length (rd_reward rollout)"
    using wf i by (simp_all add: well_formed_rollout_def)
  then show ?thesis
    by (simp add: make_ep_dict_def row_at_in obs sl episode_of_def o)
qed


lemma compile_loop_ok:
  assumes wf: "well_formed_rollout rollout b n" and obs: "rd_observation rollout = Some obs"
    and ixs: "\<forall>i \<in> set ixs. i < b \<and> i < length di"
  shows "compile_loop rollout di sei fps ixs acc =
     Inr \<lparr>ep_dicts = ep_dicts acc @ map (\<lambda>i. episode_of rollout sei fps i (di ! i + 1)) ixs,
          acc_from = acc_from acc @ map (\<lambda>j. data_index_from acc
                        + int (sum_list (map (\<lambda>i. di ! i + 1) (take j ixs)))) [0..<length ixs],
          acc_to = acc_to acc @ map (\<lambda>j. data_index_from acc
                        + int (sum_list (map (\<lambda>i. di ! i + 1) (take (Suc j) ixs)))) [0..<length ixs],
          total_frames = total_frames acc + sum_list (map (\<lambda>i. di ! i + 1) ixs),
          data_index_from = data_index_from acc + int (sum_list (map (\<lambda>i. di ! i + 1) ixs))\<rparr>"
  using ixs
proof (induction ixs arbitrary: acc)
  case Nil
  show ?case by simp
next
  case (Cons i ixs)
  have i: "i < b" "i < length di" using Cons.prems by simp_all
  have rest: "\<forall>i \<in> set ixs. i < b \<and> i < length di" using Cons.prems by simp
  show ?case
    by (simp add: row_at_in i make_ep_dict_ok [OF wf obs i(1)] Cons.IH [OF rest]
        map_upt_Suc add.assoc del: upt_Suc)
qed


lemma lengths_upto:
  assumes "j \<le> b" "b \<le> length di"
  shows "sum_list (map (\<lambda>i. di ! i + 1) (take j [0..<b])) = frames_before di j"
proof -
  have "take j [0..<b] = [0..<j]" using assms by (simp add: take_upt)
  moreover have "map (\<lambda>i. di ! i + 1) [0..<j] = map Suc (take j di)"
    using assms by (simp add: list_eq_iff_nth_eq)
  ultimately show ?thesis by (simp add: frames_before_def)
qed

lemma lengths_upto_Suc:
  assumes "j \<le> b" "b \<le> length di"
  shows "sum_list (map (\<lambda>i. Suc (di ! i)) (take j [0..<b])) = frames_before di j"
  using lengths_upto [OF assms] by simp

lemma map_of_keyed:
  "distinct (map fst obs) \<Longrightarrow> kt \<in> set obs
     \<Longrightarrow> map_of (map (\<lambda>kt. (fst kt, g kt)) obs) (fst kt) = Some (g kt)"
proof (induction obs)
  case Nil
  then show ?case by simp
next
  case (Cons a obs)
  then show ?case by (auto simp: image_iff)
qed

lemma convert_image_ok:
  assumes "fr \<noteq> []" "list_all (\<lambda>v. 0 \<le> v \<and> v \<le> 1) fr" "c < h" "c < w"
    "c = 2 \<or> c = 3 \<or> c = 4"
  shows "convert_image Float32 [c, h, w] fr =
     Inr (PILImage [h, w, c] (permute_1_2_0 c h w (map to_uint8 (map (\<lambda>v. v * 255) fr))),
          map (\<lambda>v. v * 255) fr)"
proof -
  have "Max (set fr) \<le> 1" "0 \<le> Min (set fr)"
    using assms by (simp_all add: list_all_iff)
  then show ?thesis using assms by (simp add: convert_image_def)
qed

lemma sum_take_lengths:
  assumes "\<forall>i < b. di ! i < n \<and> length (rows ! i) = m" "n \<le> m"
  shows "length (concat (map (\<lambda>i. take (di ! i + 1) (rows ! i)) [0..<b]))
       = sum_list (map (\<lambda>i. di ! i + 1) [0..<b])"
proof -
  have "map (\<lambda>i. length (take (di ! i + 1) (rows ! i))) [0..<b] = map (\<lambda>i. di ! i + 1) [0..<b]"
    using assms by (auto simp: min_def)
  then have "sum_list (map (\<lambda>i. length (take (di ! i + 1) (rows ! i))) [0..<b])
      = sum_list (map (\<lambda>i. di ! i + 1) [0..<b])"
    by (rule arg_cong)
  then show ?thesis by (simp only: length_concat map_map comp_def)
qed


lemma map_res_map: "map_res f (map h xs) = map_res (\<lambda>x. f (h x)) xs"
  by (induction xs) simp_all

lemma lookup_slices:
  assumes wf: "well_formed_rollout rollout b n" and obs: "rd_observation rollout = Some obs"
    and kt: "kt \<in> set obs"
  shows "map_res (lookup_key (fst kt))
           (map (\<lambda>i. episode_of rollout sei fps i (di ! i + 1)) [0..<b])
       = Inr (map (slice_of (snd kt) di) [0..<b])"
proof -
  have o: "observation_of rollout = obs" using obs by (simp add: observation_of_def)
  have d: "distinct (map fst obs)" using wf o by (simp add: well_formed_rollout_def)
  show ?thesis
    unfolding map_res_map
    by (rule map_res_Inr)
      (simp add: lookup_key_def episode_of_def o map_of_keyed [OF d kt] slice_of_def)
qed

lemma convert_slices:
  assumes valid: "valid_frames key t" and img: "is_image_key key"
    and rows: "\<forall>i < b. i < length (obs_frames t)"
  shows "\<exists>imgs. map_res (\<lambda>sl. map_res (convert_image (sl_dtype sl) (sl_shape sl)) (sl_frames sl))
                 (map (slice_of t di) [0..<b]) = Inr imgs
     \<and> map length imgs = map (\<lambda>i. length (take (di ! i + 1) (obs_frames t ! i))) [0..<b]"
proof -
  obtain c h w where shp: "frame_shape t = [c, h, w]"
    and ch: "c < h" "c < w" "c = 2 \<or> c = 3 \<or> c = 4"
    using valid img by (auto simp: valid_frames_def split: list.splits)
  have dt: "obs_dtype t = Float32" using valid img by (simp add: valid_frames_def)
  have frames: "fr \<noteq> [] \<and> list_all (\<lambda>v. 0 \<le> v \<and> v \<le> 1) fr"
    if "i < b" "fr \<in> set (take (di ! i + 1) (obs_frames t ! i))" for i fr
  proof -
    have "obs_frames t ! i \<in> set (obs_frames t)" using rows that(1) by simp
    moreover have "fr \<in> set (obs_frames t ! i)" using that(2) by (rule in_set_takeD)
    ultimately show ?thesis using valid img by (auto simp: valid_frames_def list_all_iff)
  qed
  let ?conv = "\<lambda>fr. (PILImage [h, w, c] (permute_1_2_0 c h w (map to_uint8 (map (\<lambda>v. v * 255) fr))),
                      map (\<lambda>v. v * 255) fr)"
  let ?imgs = "map (\<lambda>i. map ?conv (take (di ! i + 1) (obs_frames t ! i))) [0..<b]"
  have "map_res (\<lambda>sl. map_res (convert_image (sl_dtype sl) (sl_shape sl)) (sl_frames sl))
                 (map (slice_of t di) [0..<b]) = Inr ?imgs"
    unfolding map_res_map
  proof (rule map_res_Inr)
    fix i assume "i \<in> set [0..<b]"
    then have i: "i < b" by simp
    show "map_res (convert_image (sl_dtype (slice_of t di i)) (sl_shape (slice_of t di i)))
            (sl_frames (slice_of t di i))
        = Inr (map ?conv (take (di ! i + 1) (obs_frames t ! i)))"
      unfolding slice_of_def
      by (simp add: dt shp, rule map_res_Inr)
        (use frames [OF i] ch in \<open>simp add: convert_image_ok\<close>)
  qed
  moreover have "map length ?imgs = map (\<lambda>i. length (take (di ! i + 1) (obs_frames t ! i))) [0..<b]"
    by simp
  ultimately show ?thesis by blast
qed


lemma compile_column_ok:
  assumes wf: "well_formed_rollout rollout b n" and obs: "rd_observation rollout = Some obs"
    and valid: "list_all (\<lambda>kt. valid_frames (fst kt) (snd kt)) obs"
    and di: "\<forall>i < b. di ! i < n" and kt: "kt \<in> set obs"
  shows "\<exists>col t'. compile_column (map (\<lambda>i. episode_of rollout sei fps i (di ! i + 1)) [0..<b]) kt
            = Inr ((fst kt, col), (fst kt, t'))
       \<and> column_length col = sum_list (map (\<lambda>i. di ! i + 1) [0..<b]) \<and> flat_sequence col"
proof -
  have o: "observation_of rollout = obs" using obs by (simp add: observation_of_def)
  have lens: "length (obs_frames (snd kt)) = b"
      "\<forall>r \<in> set (obs_frames (snd kt)). length r = Suc n"
    using wf o kt by (auto simp: well_formed_rollout_def list_all_iff)
  have rows: "\<forall>i < b. di ! i < n \<and> length (obs_frames (snd kt) ! i) = Suc n"
    using di lens by simp
  have total: "length (concat (map (\<lambda>i. take (di ! i + 1) (obs_frames (snd kt) ! i)) [0..<b]))
       = sum_list (map (\<lambda>i. di ! i + 1) [0..<b])"
    by (rule sum_take_lengths [OF rows]) simp
  note look = lookup_slices [OF wf obs kt, of sei fps di]
  show ?thesis
  proof (cases "is_image_key (fst kt)")
    case False
    have "concat (map sl_frames (map (slice_of (snd kt) di) [0..<b]))
        = concat (map (\<lambda>i. take (di ! i + 1) (obs_frames (snd kt) ! i)) [0..<b])"
      by (simp add: slice_of_def comp_def)
    moreover have "compile_column (map (\<lambda>i. episode_of rollout sei fps i (di ! i + 1)) [0..<b]) kt
        = Inr ((fst kt, TensorColumn (frame_shape (snd kt))
                 (concat (map sl_frames (map (slice_of (snd kt) di) [0..<b])))), (fst kt, snd kt))"
      unfolding compile_column_def look using False by simp
    moreover have "length (frame_shape (snd kt)) = 1"
      using valid kt False by (auto simp: list_all_iff valid_frames_def)
    ultimately show ?thesis
      using total by (intro exI) (auto simp only: column_length.simps flat_sequence.simps)
  next
    case True
    have v: "valid_frames (fst kt) (snd kt)" using valid kt by (auto simp: list_all_iff)
    obtain imgs where imgs:
      "map_res (\<lambda>sl. map_res (convert_image (sl_dtype sl) (sl_shape sl)) (sl_frames sl))
                 (map (slice_of (snd kt) di) [0..<b]) = Inr imgs"
      "map length imgs = map (\<lambda>i. length (take (di ! i + 1) (obs_frames (snd kt) ! i))) [0..<b]"
      using convert_slices [OF v True, of b di] lens by auto
    have "length (concat (map (map fst) imgs)) = sum_list (map length imgs)"
      by (simp add: length_concat comp_def)
    also have "\<dots> = length (concat (map (\<lambda>i. take (di ! i + 1) (obs_frames (snd kt) ! i)) [0..<b]))"
      unfolding imgs(2) by (simp only: length_concat map_map comp_def)
    finally have "length (concat (map (map fst) imgs)) = sum_list (map (\<lambda>i. di ! i + 1) [0..<b])"
      using total by simp
    moreover have "compile_column (map (\<lambda>i. episode_of rollout sei fps i (di ! i + 1)) [0..<b]) kt
        = Inr ((fst kt, ImageColumn (concat (map (map fst) imgs))),
               (fst kt, (snd kt)\<lparr>obs_frames :=
                            write_back (obs_frames (snd kt)) (map (map snd) imgs)\<rparr>))"
      unfolding compile_column_def look using True by (simp add: imgs(1))
    ultimately show ?thesis
      by (intro exI) (auto simp only: column_length.simps flat_sequence.simps)
  qed
qed

lemma nth_upt_id: "length xs = n \<Longrightarrow> map (\<lambda>i. xs ! i) [0..<n] = xs"
  by (auto simp: map_nth)

lemma rows_of_columns:
  "length (rows_of dd) = length (dd_index dd)"
  "length (dd_action dd) = length (dd_index dd) \<Longrightarrow> map row_action (rows_of dd) = dd_action dd"
  "length (dd_episode_index dd) = length (dd_index dd)
     \<Longrightarrow> map episode_index (rows_of dd) = dd_episode_index dd"
  "length (dd_frame_index dd) = length (dd_index dd)
     \<Longrightarrow> map frame_index (rows_of dd) = dd_frame_index dd"
  "length (dd_timestamp dd) = length (dd_index dd)
     \<Longrightarrow> map timestamp (rows_of dd) = dd_timestamp dd"
  "map index (rows_of dd) = dd_index dd"
  "length (dd_next_done dd) = length (dd_index dd)
     \<Longrightarrow> map next_done (rows_of dd) = dd_next_done dd"
  "length (dd_next_reward dd) = length (dd_index dd)
     \<Longrightarrow> map next_reward (rows_of dd) = dd_next_reward dd"
  by (simp_all only: rows_of_def map_map comp_def frame_rec.simps nth_upt_id length_map
      length_upt diff_zero)

lemma from_dict_ok:
  assumes "length (dd_action dd) = n" "length (dd_episode_index dd) = n"
    "length (dd_frame_index dd) = n" "length (dd_timestamp dd) = n"
    "length (dd_next_done dd) = n" "length (dd_next_reward dd) = n"
    "list_all (\<lambda>kc. column_length (snd kc) = n \<and> flat_sequence (snd kc)) (dd_observation dd)"
    "length (dd_index dd) = n"
  shows "from_dict dd = Inr (rows_of dd)"
  using assms by (simp add: from_dict_def rows_of_def Let_def list_all_iff list_ex_iff)


lemma map_res_ex:
  "(\<And>x. x \<in> set xs \<Longrightarrow> \<exists>y. f x = Inr y \<and> P y)
     \<Longrightarrow> \<exists>ys. map_res f xs = Inr ys \<and> list_all P ys"
proof (induction xs)
  case Nil
  show ?case by simp
next
  case (Cons x xs)
  obtain y where y: "f x = Inr y" "P y" using Cons.prems [of x] by auto
  obtain ys where ys: "map_res f xs = Inr ys" "list_all P ys"
    using Cons.IH Cons.prems by auto
  show ?case using y ys by simp
qed

lemma loop_from_upto:
  assumes "b \<le> length di"
  shows "map (\<lambda>j. s + int (sum_list (map (\<lambda>i. di ! i + 1) (take j [0..<b])))) [0..<b]
       = map (\<lambda>i. s + int (frames_before di i)) [0..<b]"
    and "map (\<lambda>j. s + int (sum_list (map (\<lambda>i. di ! i + 1) (take (Suc j) [0..<b])))) [0..<b]
       = map (\<lambda>i. s + int (frames_before di (Suc i))) [0..<b]"
    and "sum_list (map (\<lambda>i. di ! i + 1) [0..<b]) = frames_before di b"
proof -
  show "map (\<lambda>j. s + int (sum_list (map (\<lambda>i. di ! i + 1) (take j [0..<b])))) [0..<b]
       = map (\<lambda>i. s + int (frames_before di i)) [0..<b]"
    using assms by (intro map_cong refl) (simp add: lengths_upto_Suc del: take_upt)
  show "map (\<lambda>j. s + int (sum_list (map (\<lambda>i. di ! i + 1) (take (Suc j) [0..<b])))) [0..<b]
       = map (\<lambda>i. s + int (frames_before di (Suc i))) [0..<b]"
    using assms by (intro map_cong refl) (simp add: lengths_upto_Suc del: take_upt)
  show "sum_list (map (\<lambda>i. di ! i + 1) [0..<b]) = frames_before di b"
    using lengths_upto [of b b di] assms by simp
qed


lemma shape1_first_take:
  assumes "0 < b" and "rows ! 0 \<noteq> []"
  shows "shape1 (concat (map (\<lambda>i. take (di ! i + 1) (rows ! i)) [0..<b]))
       = length (hd (rows ! 0))"
proof -
  obtain b' where b': "b = Suc b'" using assms(1) by (cases b) auto
  obtain x xs where r: "rows ! 0 = x # xs" using assms(2) by (cases "rows ! 0") auto
  show ?thesis
    unfolding b' by (simp add: upt_conv_Cons r shape1_def del: upt_Suc)
qed

lemma compile_ok:
  assumes wf: "well_formed_rollout rollout b n" and obs: "rd_observation rollout = Some obs"
    and valid: "list_all (\<lambda>kt. valid_frames (fst kt) (snd kt)) obs"
    and len: "length di = b" and di: "\<forall>i < b. di ! i < n"
  shows "\<exists>hf rollout'. compile_episode_data rollout di sei sdi fps =
       Inr (\<lparr>ed_hf_dataset = hf, ed_features = rollout_features rollout,
             ed_episode_data_index =
               \<lparr>index_from = map (\<lambda>i. sdi + int (frames_before di i)) [0..<b],
                index_to = map (\<lambda>i. sdi + int (frames_before di (Suc i))) [0..<b]\<rparr>\<rparr>, rollout')
     \<and> compiled_rows_ok rollout di sei sdi fps b hf"
proof -
  let ?E = "\<lambda>i. episode_of rollout sei fps i (di ! i + 1)"
  let ?eps = "map ?E [0..<b]"
  let ?total = "frames_before di b"
  let ?acc = "\<lparr>ep_dicts = ?eps,
      acc_from = map (\<lambda>i. sdi + int (frames_before di i)) [0..<b],
      acc_to = map (\<lambda>i. sdi + int (frames_before di (Suc i))) [0..<b],
      total_frames = ?total, data_index_from = sdi + int ?total\<rparr>"
  have o: "observation_of rollout = obs" using obs by (simp add: observation_of_def)
  have b: "0 < b" and la: "length (rd_action rollout) = b"
    and ra: "\<forall>i < b. length (rd_action rollout ! i) = n"
    using wf by (simp_all add: well_formed_rollout_def list_all_length)
  have le: "b \<le> length di" using len by simp
  have ixs: "\<forall>i \<in> set [0..<b]. i < b \<and> i < length di" using len by simp
  have loop: "compile_loop rollout di sei fps [0..<length (rd_action rollout)]
        \<lparr>ep_dicts = [], acc_from = [], acc_to = [], total_frames = 0, data_index_from = sdi\<rparr>
      = Inr ?acc"
    unfolding la compile_loop_ok [OF wf obs ixs]
    by (simp only: compile_acc.simps append_Nil length_upt diff_zero add_0
        loop_from_upto [OF le])
  have eps: "?eps \<noteq> []" using b by simp
  have tot: "sum_list (map (\<lambda>i. di ! i + 1) [0..<b]) = ?total"
    by (rule loop_from_upto(3) [OF le])
  have "\<exists>cols. map_res (compile_column ?eps) obs = Inr cols
      \<and> list_all (\<lambda>c. column_length (snd (fst c)) = ?total \<and> flat_sequence (snd (fst c))) cols"
  proof (rule map_res_ex)
    fix kt assume "kt \<in> set obs"
    from compile_column_ok [OF wf obs valid di this, of sei fps]
    show "\<exists>y. compile_column ?eps kt = Inr y
        \<and> column_length (snd (fst y)) = ?total \<and> flat_sequence (snd (fst y))"
      unfolding tot by auto
  qed
  then obtain cols where cols: "map_res (compile_column ?eps) obs = Inr cols"
    and clen: "list_all (\<lambda>c. column_length (snd (fst c)) = ?total \<and> flat_sequence (snd (fst c)))
                 cols" by blast
  have fts: "map_res feature_of obs = Inr (ft_observation (rollout_features rollout))"
    unfolding rollout_features_def dataset_features.simps o
  proof (rule map_res_Inr)
    fix kt assume "kt \<in> set obs"
    then have "valid_frames (fst kt) (snd kt)" using valid by (simp add: list_all_iff)
    then show "feature_of kt = Inr (fst kt, if is_image_key (fst kt) then ImageFeature
                            else SequenceFeature (hd (frame_shape (snd kt))))"
      by (cases "frame_shape (snd kt)")
        (auto simp: feature_of_def valid_frames_def split: if_splits)
  qed
  let ?dd = "make_data_dict ?acc (map fst cols) sdi"
  have take_ok: "\<forall>i < b. di ! i < n \<and> length (rd_action rollout ! i) = n"
    using di ra by simp
  have l_act: "length (dd_action ?dd) = ?total"
    using sum_take_lengths [OF take_ok order_refl] tot
    by (simp add: make_data_dict_def episode_of_def comp_def)
  have take_done: "\<forall>i < b. di ! i < n \<and> length (rd_done rollout ! i) = n"
    using di wf by (simp add: well_formed_rollout_def list_all_length)
  have l_done: "length (dd_next_done ?dd) = ?total"
    using sum_take_lengths [OF take_done order_refl] tot
    by (simp add: make_data_dict_def episode_of_def comp_def)
  have take_rew: "\<forall>i < b. di ! i < n \<and> length (rd_reward rollout ! i) = n"
    using di wf by (simp add: well_formed_rollout_def list_all_length)
  have l_rew: "length (dd_next_reward ?dd) = ?total"
    using sum_take_lengths [OF take_rew order_refl] tot
    by (simp add: make_data_dict_def episode_of_def comp_def)
  have l_ep: "length (dd_episode_index ?dd) = ?total"
    "length (dd_frame_index ?dd) = ?total" "length (dd_timestamp ?dd) = ?total"
    "length (dd_index ?dd) = ?total"
    using tot by (simp_all add: make_data_dict_def episode_of_def comp_def length_concat)
  have l_obs: "list_all (\<lambda>kc. column_length (snd kc) = ?total \<and> flat_sequence (snd kc))
                 (dd_observation ?dd)"
    using clen by (simp add: make_data_dict_def list_all_iff)
  have fd: "from_dict ?dd = Inr (rows_of ?dd)"
    by (rule from_dict_ok [OF l_act l_ep(1) l_ep(2) l_ep(3) l_done l_rew l_obs l_ep(4)])
  have cols_eq: "dd_action ?dd = concat (map (\<lambda>i. take (di ! i + 1) (rd_action rollout ! i)) [0..<b])"
    "dd_episode_index ?dd = concat (map (\<lambda>i. replicate (di ! i + 1) (sei + int i)) [0..<b])"
    "dd_frame_index ?dd = concat (map (\<lambda>i. map int [0..<di ! i + 1]) [0..<b])"
    "dd_timestamp ?dd = concat (map (\<lambda>i. map (\<lambda>k. of_nat k / fps) [0..<di ! i + 1]) [0..<b])"
    "dd_index ?dd = map (\<lambda>k. sdi + int k) [0..<?total]"
    by (simp_all add: make_data_dict_def episode_of_def comp_def del: upt_Suc)
  have n: "0 < n" and a0: "rd_action rollout \<noteq> []"
    using wf by (auto simp: well_formed_rollout_def)
  have "rd_action rollout ! 0 \<noteq> []" using ra b n by auto
  then have act: "shape1 (dd_action ?dd) = length (hd (hd (rd_action rollout)))"
    unfolding cols_eq(1) using shape1_first_take [OF b, of "rd_action rollout" di] a0
    by (simp add: hd_conv_nth)
  have res: "compile_episode_data rollout di sei sdi fps =
       Inr (\<lparr>ed_hf_dataset = rows_of ?dd, ed_features = rollout_features rollout,
             ed_episode_data_index =
               \<lparr>index_from = map (\<lambda>i. sdi + int (frames_before di i)) [0..<b],
                index_to = map (\<lambda>i. sdi + int (frames_before di (Suc i))) [0..<b]\<rparr>\<rparr>,
            rollout\<lparr>rd_observation := Some (map snd cols)\<rparr>)"
    unfolding compile_episode_data_def loop bind_res_Inr o compile_acc.simps cols fts fd act
    using eps by (simp add: rollout_features_def o del: upt_Suc)
  have "compiled_rows_ok rollout di sei sdi fps b (rows_of ?dd)"
    unfolding compiled_rows_ok_def
    using rows_of_columns [of ?dd] l_act l_ep
    by (simp only: cols_eq simp_thms)
  then show ?thesis using res by blast
qed

lemma frames_before_all: "length di = b \<Longrightarrow> frames_before di b = sum_list (map Suc di)"
  by (simp add: frames_before_def)






text \<open>
  A state observation of 2 x 2 frames is not the flat sequence its feature announces:
  building the dataset raises.
\<close>

lemma compile_episode_data_nested_state:
  "compile_episode_data nested_state_rollout [2, 4] 0 0 10 = Inl TypeError"
  by code_simp



text \<open>
  C10 (the code diverges): the claim leaves the rollout's tensors as they were. One
  element, one step, an image observation of two 3 x 4 x 4 frames, uniformly 1/2 and 1/4:
  the call returns, and afterwards the first frame, the one compiled, holds 255/2
  throughout in the rollout itself; the second frame is as before.
\<close>

theorem compile_episode_data_scales_rollout_images:
  "case compile_episode_data image_rollout [0] 0 0 10 of
     Inl e \<Rightarrow> False
   | Inr (ed, rollout') \<Rightarrow>
       map (obs_frames \<circ> snd) (observation_of rollout')
         = [[[replicate 48 (255 / 2), replicate 48 (1 / 4)]]]
       \<and> map (obs_frames \<circ> snd) (observation_of image_rollout)
         = [[[replicate 48 (1 / 2), replicate 48 (1 / 4)]]]"
  by code_simp

subsection \<open>Evaluation\<close>

lemma shape1_rows: "t \<noteq> [] \<Longrightarrow> list_all (\<lambda>r. length r = n) t \<Longrightarrow> shape1 t = n"
  by (cases t) (simp_all add: shape1_def)

lemma metrics_ok:
  assumes wf: "well_formed_rollout rollout b n"
  shows "resolve_boundaries (rd_done rollout)
           = Inr (snd (snd (snd (batch_metrics rollout))),
                  make_mask n (snd (snd (snd (batch_metrics rollout)))))"
    and "\<exists>mr. mul_mask (rd_reward rollout) (make_mask n (snd (snd (snd (batch_metrics rollout)))))
                 = Inr mr
            \<and> map sum_list mr = fst (batch_metrics rollout)
            \<and> map_res reduce_max mr = Inr (fst (snd (batch_metrics rollout)))"
    and "\<exists>ms. mul_mask (map (map of_bool) (rd_success rollout))
                  (make_mask n (snd (snd (snd (batch_metrics rollout))))) = Inr ms
            \<and> map reduce_any ms = fst (snd (snd (batch_metrics rollout)))"
    and "length (fst (batch_metrics rollout)) = b"
    and "length (fst (snd (batch_metrics rollout))) = b"
    and "length (fst (snd (snd (batch_metrics rollout)))) = b"
    and "length (snd (snd (snd (batch_metrics rollout)))) = b"
    and "\<forall>i < b. snd (snd (snd (batch_metrics rollout))) ! i < n"
proof -
  let ?di = "map (\<lambda>row. if True \<in> set row then first_true row else 0) (rd_done rollout)"
  let ?msk = "make_mask n ?di"
  have b: "0 < b" and n: "0 < n"
    and ld: "length (rd_done rollout) = b" and rd: "list_all (\<lambda>r. length r = n) (rd_done rollout)"
    and lr: "length (rd_reward rollout) = b" and rr: "list_all (\<lambda>r. length r = n) (rd_reward rollout)"
    and ls: "length (rd_success rollout) = b"
    and rs: "list_all (\<lambda>r. length r = n) (rd_success rollout)"
    using wf by (simp_all add: well_formed_rollout_def)
  have ne: "\<forall>row \<in> set (rd_done rollout). row \<noteq> []"
    using rd n by (auto simp: list_all_iff)
  have sh: "shape1 (rd_done rollout) = n"
    using ld b rd by (intro shape1_rows) auto
  have di: "snd (snd (snd (batch_metrics rollout))) = ?di"
    by (simp add: batch_metrics_def Let_def)
  show "resolve_boundaries (rd_done rollout)
           = Inr (snd (snd (snd (batch_metrics rollout))),
                  make_mask n (snd (snd (snd (batch_metrics rollout)))))"
    unfolding di using resolve_boundaries_rows [OF ne] sh by simp
  have lm: "map length ?msk = replicate b n"
    using ld by (simp add: make_mask_def comp_def map_replicate_const)
  have lrw: "map length (rd_reward rollout) = replicate b n"
    using lr rr by (simp add: list_eq_iff_nth_eq list_all_length)
  have lsw: "map length (map (map of_bool) (rd_success rollout)) = replicate b n"
    using ls rs by (simp add: list_eq_iff_nth_eq list_all_length)
  let ?mr = "map2 (map2 (\<lambda>x m. x * of_int m)) (rd_reward rollout) ?msk"
  have mm: "mul_mask (rd_reward rollout) ?msk = Inr ?mr"
    by (simp only: mul_mask_def lm lrw simp_thms if_True)
  have rows_ne: "\<forall>row \<in> set ?mr. row \<noteq> []"
  proof
    fix row assume "row \<in> set ?mr"
    then obtain i where i: "i < length ?mr" and row: "row = ?mr ! i"
      by (auto simp: in_set_conv_nth)
    have ib: "i < b" using i lr ld by (simp add: make_mask_def)
    have "length (rd_reward rollout ! i) = n" using rr ib lr by (simp add: list_all_length)
    moreover have "length (?msk ! i) = n" using ib ld by (simp add: make_mask_def)
    ultimately have "length row = n" using row i ib lr ld by (simp add: make_mask_def)
    then show "row \<noteq> []" using n by auto
  qed
  have mx: "map_res reduce_max ?mr = Inr (map (\<lambda>row. Max (set row)) ?mr)"
  proof (rule map_res_Inr)
    fix row assume "row \<in> set ?mr"
    then have "row \<noteq> []" using rows_ne by blast
    then show "reduce_max row = Inr (Max (set row))" by (simp add: reduce_max_def)
  qed
  show "\<exists>mr. mul_mask (rd_reward rollout) (make_mask n (snd (snd (snd (batch_metrics rollout)))))
                 = Inr mr
            \<and> map sum_list mr = fst (batch_metrics rollout)
            \<and> map_res reduce_max mr = Inr (fst (snd (batch_metrics rollout)))"
    unfolding di using mm mx sh by (simp add: batch_metrics_def Let_def)
  have ms: "mul_mask (map (map of_bool) (rd_success rollout)) ?msk
      = Inr (map2 (map2 (\<lambda>x m. x * of_int m)) (map (map of_bool) (rd_success rollout)) ?msk)"
    by (simp only: mul_mask_def lm lsw simp_thms if_True)
  show "\<exists>ms. mul_mask (map (map of_bool) (rd_success rollout))
                  (make_mask n (snd (snd (snd (batch_metrics rollout))))) = Inr ms
            \<and> map reduce_any ms = fst (snd (snd (batch_metrics rollout)))"
    unfolding di using ms sh by (simp add: batch_metrics_def Let_def)
  show "length (fst (batch_metrics rollout)) = b"
    "length (fst (snd (batch_metrics rollout))) = b"
    "length (fst (snd (snd (batch_metrics rollout)))) = b"
    "length (snd (snd (snd (batch_metrics rollout)))) = b"
    using ld lr ls by (simp_all add: batch_metrics_def Let_def make_mask_def)
  show "\<forall>i < b. snd (snd (snd (batch_metrics rollout))) ! i < n"
    unfolding di using ld rd n first_true_less
    by (auto simp: list_all_length)
qed


lemma frames_before_pos: "0 < b \<Longrightarrow> b \<le> length di \<Longrightarrow> 0 < frames_before di b"
  by (cases di; cases b) (simp_all add: frames_before_def)

lemma compiled_rows_ends:
  assumes rows: "compiled_rows_ok rollout di sei sdi fps b hf" and b: "0 < b" "b \<le> length di"
  shows "hf \<noteq> []" "episode_index (hd hf) = sei" "episode_index (last hf) = sei + int b - 1"
    "index (hd hf) = sdi" "index (last hf) = sdi + int (frames_before di b) - 1"
proof -
  have len: "length hf = frames_before di b" and pos: "0 < frames_before di b"
    using rows b by (simp_all add: compiled_rows_ok_def frames_before_pos)
  then show ne: "hf \<noteq> []" by auto
  have ep: "map episode_index hf = concat (map (\<lambda>i. replicate (di ! i + 1) (sei + int i)) [0..<b])"
    and ix: "map index hf = map (\<lambda>k. sdi + int k) [0..<frames_before di b]"
    using rows by (simp_all add: compiled_rows_ok_def)
  obtain b' where b': "b = Suc b'" using b by (cases b) auto
  have "hd (map episode_index hf) = sei"
    unfolding ep b' by (simp add: upt_conv_Cons del: upt_Suc)
  then show "episode_index (hd hf) = sei" using ne by (simp add: hd_map)
  have "last (map episode_index hf) = sei + int b'"
    unfolding ep b' by simp
  then show "episode_index (last hf) = sei + int b - 1" using ne b' by (simp add: last_map)
  obtain t' where t': "frames_before di b = Suc t'" using pos by (cases "frames_before di b") auto
  have "hd (map index hf) = sdi"
    unfolding ix t' by (simp add: upt_conv_Cons del: upt_Suc)
  then show "index (hd hf) = sdi" using ne by (simp add: hd_map)
  have "last (map index hf) = sdi + int t'"
    unfolding ix t' by simp
  then show "index (last hf) = sdi + int (frames_before di b) - 1"
    using ne t' by (simp add: last_map)
qed


lemma py_get_ends:
  "xs \<noteq> [] \<Longrightarrow> py_get xs 0 = Inr (hd xs)"
  "xs \<noteq> [] \<Longrightarrow> py_get xs (- 1) = Inr (last xs)"
  using py_get_first [of xs "\<lambda>x. x"] py_get_last [of xs "\<lambda>x. x"] by simp_all

lemma aligned_refl: "distinct (map fst (ft_observation f)) \<Longrightarrow> aligned f f"
  by (auto simp: aligned_def list_all_iff split: option.splits)
    (metis map_of_is_SomeI option.inject)

lemma merge_features_same: "merge_features f f = f"
proof -
  have "filter (\<lambda>kf. fst kf \<notin> set (map fst (ft_observation f))) (ft_observation f) = []"
    by (auto simp: filter_empty_conv)
  then show ?thesis by (simp add: merge_features_def)
qed

lemma accumulate_ok:
  assumes wf: "well_formed_rollout rollout b n" and obs: "rd_observation rollout = Some obs"
    and valid: "list_all (\<lambda>kt. valid_frames (fst kt) (snd kt)) obs"
    and len: "length di = b" and di: "\<forall>i < b. di ! i < n"
    and env: "num_envs env = b"
    and sch: "rollout_features rollout = sch"
    and inv: "episodes_through sch (batch_ix * b) acc"
  shows "\<exists>acc'. accumulate_episode_data env batch_ix rollout di acc = Inr acc'
     \<and> episodes_through sch (Suc batch_ix * b) acc'"
proof -
  have b: "0 < b" using wf by (simp add: well_formed_rollout_def)
  have le: "b \<le> length di" using len by simp
  define sdi where "sdi = (case acc of None \<Rightarrow> 0
      | Some ed \<Rightarrow> last (index_to (ed_episode_data_index ed)))"
  have start: "(case acc of None \<Rightarrow> Inr 0
               | Some ed \<Rightarrow> py_get (index_to (ed_episode_data_index ed)) (- 1)) = Inr sdi"
    using inv by (cases acc) (simp_all add: sdi_def episodes_through_def py_get_ends)
  let ?edi = "\<lparr>index_from = map (\<lambda>i. sdi + int (frames_before di i)) [0..<b],
              index_to = map (\<lambda>i. sdi + int (frames_before di (Suc i))) [0..<b]\<rparr>"
  obtain hf rollout' where c:
    "compile_episode_data rollout di (int (batch_ix * b)) sdi (render_fps env) =
       Inr (\<lparr>ed_hf_dataset = hf, ed_features = sch, ed_episode_data_index = ?edi\<rparr>, rollout')"
    and rows: "compiled_rows_ok rollout di (int (batch_ix * b)) sdi (render_fps env) b hf"
    using compile_ok [OF wf obs valid len di] unfolding sch by blast
  note ends = compiled_rows_ends [OF rows b le]
  obtain b' where b': "b = Suc b'" using b by (cases b) auto
  have to_last: "last (index_to ?edi) = sdi + int (frames_before di b)"
    unfolding b' by simp
  have from_first: "hd (index_from ?edi) = sdi"
    unfolding b' by (simp add: upt_conv_Cons frames_before_def del: upt_Suc)
  have ne: "index_to ?edi \<noteq> []" "index_from ?edi \<noteq> []" using b by simp_all
  let ?cur = "\<lparr>ed_hf_dataset = hf, ed_features = sch, ed_episode_data_index = ?edi\<rparr>"
  have "distinct (map fst (ft_observation sch))"
    using wf unfolding sch [symmetric]
    by (simp add: rollout_features_def well_formed_rollout_def comp_def)
  then have al: "aligned sch sch" "merge_features sch sch = sch"
    by (simp_all add: aligned_refl merge_features_same)
  have this_ok: "episodes_through sch (Suc batch_ix * b) (Some ?cur)"
    unfolding episodes_through_def option.case episode_data.simps
    using ends b ne to_last by (simp add: algebra_simps)
  have acc_eq: "accumulate_episode_data env batch_ix rollout di acc =
      (case acc of None \<Rightarrow> Inr (Some ?cur)
       | Some ed \<Rightarrow> bind_res (concat_episode_data ed ?cur) (\<lambda>ed'. Inr (Some ed')))"
    unfolding accumulate_episode_data_def start bind_res_Inr env c fst_conv ..
  show ?thesis
  proof (cases acc)
    case None
    then show ?thesis
      using this_ok unfolding acc_eq by (simp del: upt_Suc)
  next
    case (Some ed)
    have ed: "ed_hf_dataset ed \<noteq> []" "index_to (ed_episode_data_index ed) \<noteq> []"
      "episode_index (last (ed_hf_dataset ed)) + 1 = int (batch_ix * b)"
      "index (last (ed_hf_dataset ed)) + 1 = sdi" "ed_features ed = sch"
      using inv Some by (simp_all add: episodes_through_def sdi_def)
    let ?new = "\<lparr>ed_hf_dataset = ed_hf_dataset ed @ hf, ed_features = sch,
         ed_episode_data_index =
           \<lparr>index_from = index_from (ed_episode_data_index ed) @ index_from ?edi,
            index_to = index_to (ed_episode_data_index ed) @ index_to ?edi\<rparr>\<rparr>"
    have cat: "concat_episode_data ed ?cur = Inr ?new"
      unfolding concat_episode_data_def episode_data.simps
      using ed ends ne from_first al
      by (simp add: py_get_ends hd_map last_map sdi_def Some del: upt_Suc)
    have "episodes_through sch (Suc batch_ix * b) (Some ?new)"
      using this_ok ends(1) ne
      by (simp add: episodes_through_def del: upt_Suc)
    then show ?thesis
      using Some unfolding acc_eq by (simp add: cat del: upt_Suc)
  qed
qed


lemma eval_batch_ok:
  assumes H: "rollouts_of_features env ret sch"
    and inv: "episodes_kept sch ret (k * num_envs env) (episode_data st)"
  shows "\<exists>st'. eval_batch env ret (Some s) k st = Inr st'
     \<and> length (sum_rewards st') = length (sum_rewards st) + num_envs env
     \<and> length (max_rewards st') = length (max_rewards st) + num_envs env
     \<and> length (all_successes st') = length (all_successes st) + num_envs env
     \<and> all_seeds st' = all_seeds st @ batch_seeds s (num_envs env) k
     \<and> env_state st' = snd (run_rollout env (env_state st) (batch_seeds s (num_envs env) k) ret)
     \<and> episodes_kept sch ret (Suc k * num_envs env) (episode_data st')"
proof -
  let ?seeds = "batch_seeds s (num_envs env) k"
  let ?out = "run_rollout env (env_state st) ?seeds ret"
  obtain rollout w' n where out: "?out = (Inr rollout, w')"
    and wf: "well_formed_rollout rollout (num_envs env) n"
    and obs: "ret \<longrightarrow> (\<exists>obs. rd_observation rollout = Some obs
               \<and> list_all (\<lambda>kt. valid_frames (fst kt) (snd kt)) obs)
             \<and> rollout_features rollout = sch"
    using H unfolding rollouts_of_features_def by blast
  let ?m = "batch_metrics rollout"
  let ?di = "snd (snd (snd ?m))"
  note m = metrics_ok [OF wf]
  obtain mr where mr: "mul_mask (rd_reward rollout) (make_mask n ?di) = Inr mr"
    "map sum_list mr = fst ?m" "map_res reduce_max mr = Inr (fst (snd ?m))"
    using m(2) by blast
  obtain ms where ms: "mul_mask (map (map of_bool) (rd_success rollout)) (make_mask n ?di) = Inr ms"
    "map reduce_any ms = fst (snd (snd ?m))"
    using m(3) by blast
  have "\<exists>acc'. (if ret then accumulate_episode_data env k rollout ?di (episode_data st)
                 else Inr (episode_data st)) = Inr acc'
      \<and> episodes_kept sch ret (Suc k * num_envs env) acc'"
  proof (cases ret)
    case False
    then show ?thesis using inv by (simp add: episodes_kept_def)
  next
    case True
    then obtain obs where o: "rd_observation rollout = Some obs"
      "list_all (\<lambda>kt. valid_frames (fst kt) (snd kt)) obs"
      and f: "rollout_features rollout = sch"
      using obs by blast
    have "episodes_through sch (k * num_envs env) (episode_data st)"
      using inv True by (simp add: episodes_kept_def)
    from accumulate_ok [OF wf o m(7) m(8) refl f this]
    show ?thesis using True by (simp add: episodes_kept_def)
  qed
  then obtain acc' where acc:
    "(if ret then accumulate_episode_data env k rollout ?di (episode_data st)
      else Inr (episode_data st)) = Inr acc'"
    "episodes_kept sch ret (Suc k * num_envs env) acc'" by blast
  have "eval_batch env ret (Some s) k st =
      Inr \<lparr>sum_rewards = sum_rewards st @ map sum_list mr,
           max_rewards = max_rewards st @ fst (snd ?m),
           all_successes = all_successes st @ map reduce_any ms,
           all_seeds = all_seeds st @ ?seeds,
           episode_data = acc',
           env_state = snd ?out\<rparr>"
    unfolding eval_batch_def option.case Let_def out fst_conv snd_conv bind_res_Inr
      m(1) mr(1) mr(3) ms(1) acc(1) ..
  then show ?thesis
    using m(4-6) mr(2) ms(2) acc(2) out by (simp del: mult_Suc)
qed

lemma eval_loop_ok:
  assumes H: "rollouts_of_features env ret sch"
  shows "episodes_kept sch ret (k * num_envs env) (episode_data st) \<Longrightarrow>
     \<exists>st'. eval_loop env ret (Some s) [k..<k + d] st = Inr st'
     \<and> length (sum_rewards st') = length (sum_rewards st) + d * num_envs env
     \<and> length (max_rewards st') = length (max_rewards st) + d * num_envs env
     \<and> length (all_successes st') = length (all_successes st) + d * num_envs env
     \<and> all_seeds st' = all_seeds st @ concat (map (batch_seeds s (num_envs env)) [k..<k + d])
     \<and> env_state st' = run_all env ret (env_state st) (map (batch_seeds s (num_envs env)) [k..<k + d])
     \<and> episodes_kept sch ret ((k + d) * num_envs env) (episode_data st')"
proof (induction d arbitrary: k st)
  case 0
  then show ?case by simp
next
  case (Suc d)
  obtain st1 where st1: "eval_batch env ret (Some s) k st = Inr st1"
    "length (sum_rewards st1) = length (sum_rewards st) + num_envs env"
    "length (max_rewards st1) = length (max_rewards st) + num_envs env"
    "length (all_successes st1) = length (all_successes st) + num_envs env"
    "all_seeds st1 = all_seeds st @ batch_seeds s (num_envs env) k"
    "env_state st1 = snd (run_rollout env (env_state st) (batch_seeds s (num_envs env) k) ret)"
    "episodes_kept sch ret (Suc k * num_envs env) (episode_data st1)"
    using eval_batch_ok [OF H Suc.prems, of s] by blast
  obtain st' where st': "eval_loop env ret (Some s) [Suc k..<Suc k + d] st1 = Inr st'"
    "length (sum_rewards st') = length (sum_rewards st1) + d * num_envs env"
    "length (max_rewards st') = length (max_rewards st1) + d * num_envs env"
    "length (all_successes st') = length (all_successes st1) + d * num_envs env"
    "all_seeds st' = all_seeds st1 @ concat (map (batch_seeds s (num_envs env)) [Suc k..<Suc k + d])"
    "env_state st' = run_all env ret (env_state st1)
        (map (batch_seeds s (num_envs env)) [Suc k..<Suc k + d])"
    "episodes_kept sch ret ((Suc k + d) * num_envs env) (episode_data st')"
    using Suc.IH [OF st1(7)] by blast
  have split: "[k..<k + Suc d] = k # [Suc k..<Suc k + d]"
    by (simp add: upt_conv_Cons)
  show ?case
    unfolding split
    using st1 st' by (intro exI [of _ st']) (simp add: add_mult_distrib)
qed

lemma batch_seeds_range:
  "batch_seeds s w m = map (\<lambda>i. s + int i) [m * w..<m * w + w]"
proof -
  have "[m * w..<w + m * w] = map (\<lambda>i. i + m * w) [0..<w]"
    by (simp only: map_add_upt)
  then have "map (\<lambda>i. s + int i) [m * w..<m * w + w] = map (\<lambda>k. s + int (k + m * w)) [0..<w]"
    by (simp only: add.commute [of "m * w" w] map_map comp_def)
  also have "\<dots> = map (\<lambda>k. s + int (m * w) + int k) [0..<w]"
    by (rule map_cong) (simp_all only: of_nat_add add.assoc add.commute [of "int (m * w)"])
  finally show ?thesis by (simp only: batch_seeds_def)
qed

lemma concat_batch_seeds:
  "concat (map (batch_seeds s w) [0..<m]) = map (\<lambda>i. s + int i) [0..<m * w]"
proof (induction m)
  case 0
  show ?case by simp
next
  case (Suc m)
  have "[0..<Suc m * w] = [0..<m * w] @ [m * w..<m * w + w]"
    by (simp only: mult_Suc add.commute [of w] upt_add_eq_append [OF le0])
  then show ?case
    using Suc by (simp add: batch_seeds_range)
qed

lemma n_batches_ceiling:
  assumes "0 < w"
  shows "\<exists>m. n_batches_of n w = Inr m \<and> n \<le> m * w \<and> (0 < n \<longrightarrow> (m - 1) * w < n \<and> 0 < m)"
proof -
  define q where "q = n div w"
  define r where "r = n mod w"
  have n: "n = q * w + r" and r: "r < w"
    using assms by (simp_all add: q_def r_def)
  show ?thesis
  proof (cases "r = 0")
    case True
    have m: "n_batches_of n w = Inr q"
      using True assms by (simp add: n_batches_of_def q_def r_def)
    have "0 < n \<Longrightarrow> 0 < q" using n True by (cases q) simp_all
    moreover have "0 < q \<Longrightarrow> (q - 1) * w + w = q * w"
      by (cases q) simp_all
    ultimately have "0 < n \<Longrightarrow> (q - 1) * w < n \<and> 0 < q"
      using n True assms by auto
    then show ?thesis using m n True by auto
  next
    case False
    have m: "n_batches_of n w = Inr (q + 1)"
      using False assms by (simp add: n_batches_of_def q_def r_def)
    have "(q + 1) * w = q * w + w" by simp
    then have "n \<le> (q + 1) * w" "(q + 1 - 1) * w < n"
      using n r False by simp_all
    then show ?thesis using m by auto
  qed
qed

lemma ceiling_of_batches:
  assumes w: "0 < w" and m: "0 < m" and up: "n \<le> m * w" and lo: "(m - 1) * w < n"
  shows "\<lceil>(of_nat n :: rat) / of_nat w\<rceil> = int m"
proof (rule ceiling_unique)
  have w': "(0 :: rat) < of_nat w" using w by simp
  have "(of_nat n :: rat) \<le> of_nat (m * w)" using up by (simp only: of_nat_le_iff)
  then have "(of_nat n :: rat) \<le> of_nat m * of_nat w" by simp
  then show "(of_nat n :: rat) / of_nat w \<le> of_int (int m)"
    using w' by (simp add: pos_divide_le_eq)
  have "(of_nat ((m - 1) * w) :: rat) < of_nat n" using lo by (simp only: of_nat_less_iff)
  moreover have "(of_nat (m - 1) :: rat) = of_nat m - 1" using m by (simp add: of_nat_diff)
  ultimately have "(of_nat m - 1) * of_nat w < (of_nat n :: rat)" by simp
  then show "of_int (int m) - 1 < (of_nat n :: rat) / of_nat w"
    using w' by (simp add: pos_less_divide_eq)
qed

lemma resolve_boundaries_returns:
  assumes "resolve_boundaries d = Inr (di, msk)"
  shows "di = map done_index_of d \<and> msk = make_mask (shape1 d) di"
proof -
  have r: "done_indices_of d = Inr di" and m: "msk = make_mask (shape1 d) di"
    using assms by (auto simp: resolve_boundaries_def Let_def bind_res_eq_Inr)
  have l: "list_all2 (\<lambda>row y. argmax (map of_bool row) = Inr y) d di"
    using r by (simp add: done_indices_of_def map_res_eq_Inr)
  have "\<forall>row \<in> set d. row \<noteq> []"
  proof
    fix row assume "row \<in> set d"
    then obtain y where "argmax (map of_bool row) = Inr y"
      using l by (auto simp: list_all2_conv_all_nth in_set_conv_nth)
    then show "row \<noteq> []" by (auto simp: argmax_def)
  qed
  from done_indices_of_rows [OF this] r
  have "di = map done_index_of d" by (simp add: done_index_of_def [abs_def])
  then show ?thesis using m by simp
qed

lemma masked_row:
  assumes "length row = n"
  shows "map2 (\<lambda>x m. x * of_int m) row (map (\<lambda>s. if s \<le> Suc d then 1 else 0) [0..<n])
       = zero_after d row"
proof (rule nth_equalityI)
  show "length (map2 (\<lambda>x m. x * of_int m) row (map (\<lambda>s. if s \<le> Suc d then 1 else 0) [0..<n]))
      = length (zero_after d row)"
    using assms by (simp add: zero_after_def)
next
  fix i assume "i < length (map2 (\<lambda>x m. x * of_int m) row
                      (map (\<lambda>s. if s \<le> Suc d then 1 else 0) [0..<n]))"
  then have i: "i < n" using assms by simp
  show "map2 (\<lambda>x m. x * of_int m) row (map (\<lambda>s. if s \<le> Suc d then 1 else 0) [0..<n]) ! i
      = zero_after d row ! i"
    using i assms by (auto simp: zero_after_def nth_append)
qed

lemma mul_mask_returns:
  assumes "mul_mask t (make_mask n di) = Inr mr"
  shows "length t = length di \<and> mr = map (\<lambda>i. zero_after (di ! i) (t ! i)) [0..<length di]"
proof -
  have lens: "map length t = map length (make_mask n di)"
    and mr: "mr = map2 (map2 (\<lambda>x m. x * of_int m)) t (make_mask n di)"
    using assms by (auto simp: mul_mask_def split: if_splits)
  have l: "length t = length di"
    using arg_cong [OF lens, of length] by (simp add: make_mask_def)
  have rows: "length (t ! i) = n" if "i < length di" for i
    using arg_cong [OF lens, of "\<lambda>xs. xs ! i"] that l by (simp add: make_mask_def)
  have "mr = map (\<lambda>i. zero_after (di ! i) (t ! i)) [0..<length di]"
    unfolding mr
    by (rule nth_equalityI) (simp_all add: l make_mask_def masked_row rows)
  then show ?thesis using l by simp
qed

lemma sum_zero_after: "sum_list (zero_after d row) = sum_list (take (d + 2) row)"
  by (simp add: zero_after_def sum_list_replicate)

lemma any_zero_after:
  "reduce_any (zero_after d (map of_bool srow)) \<longleftrightarrow> True \<in> set (take (d + 2) srow)"
proof -
  have "reduce_any (zero_after d (map of_bool srow))
      \<longleftrightarrow> list_ex (\<lambda>v. v \<noteq> (0 :: rat)) (map of_bool (take (d + 2) srow))"
    unfolding reduce_any_def zero_after_def take_map list_ex_append
    by (simp add: list_ex_iff)
  also have "\<dots> \<longleftrightarrow> True \<in> set (take (d + 2) srow)"
    unfolding list_ex_iff set_map by (auto simp: image_iff)
  finally show ?thesis .
qed

lemma reduce_max_returns:
  assumes "map_res reduce_max mr = Inr maxs"
  shows "maxs = map (\<lambda>row. Max (set row)) mr"
proof -
  have "list_all2 (\<lambda>row y. reduce_max row = Inr y) mr maxs"
    using assms by (simp add: map_res_eq_Inr)
  then show ?thesis
    by (induction rule: list_all2_induct) (auto simp: reduce_max_def split: if_splits)
qed

lemma eval_batch_returns:
  assumes "eval_batch env ret (Some s) k st = Inr st'"
  shows "\<exists>rollout. run_rollout env (env_state st) (batch_seeds s (num_envs env) k) ret
                      = (Inr rollout, env_state st')
     \<and> sum_rewards st' = sum_rewards st @ map fst (episode_metrics rollout)
     \<and> max_rewards st' = max_rewards st @ map (fst \<circ> snd) (episode_metrics rollout)
     \<and> all_successes st' = all_successes st @ map (snd \<circ> snd) (episode_metrics rollout)
     \<and> all_seeds st' = all_seeds st @ batch_seeds s (num_envs env) k"
proof -
  let ?seeds = "batch_seeds s (num_envs env) k"
  let ?out = "run_rollout env (env_state st) ?seeds ret"
  obtain rollout bounds mr maxs ms ed' where
    out: "fst ?out = Inr rollout"
    and rb: "resolve_boundaries (rd_done rollout) = Inr bounds"
    and mr: "mul_mask (rd_reward rollout) (snd bounds) = Inr mr"
    and mx: "map_res reduce_max mr = Inr maxs"
    and ms: "mul_mask (map (map of_bool) (rd_success rollout)) (snd bounds) = Inr ms"
    and st': "st' = \<lparr>sum_rewards = sum_rewards st @ map sum_list mr,
                    max_rewards = max_rewards st @ maxs,
                    all_successes = all_successes st @ map reduce_any ms,
                    all_seeds = all_seeds st @ ?seeds,
                    episode_data = ed', env_state = snd ?out\<rparr>"
    using assms unfolding eval_batch_def Let_def option.case bind_res_eq_Inr
    by (elim exE conjE) (simp, blast)
  let ?d = "rd_done rollout"
  let ?di = "map done_index_of ?d"
  have b: "fst bounds = ?di" "snd bounds = make_mask (shape1 ?d) ?di"
    using resolve_boundaries_returns [of ?d "fst bounds" "snd bounds"] rb by simp_all
  have mr': "length (rd_reward rollout) = length ?d"
      "mr = map (\<lambda>i. zero_after (?di ! i) (rd_reward rollout ! i)) [0..<length ?d]"
    using mul_mask_returns [OF mr [unfolded b(2)]] by simp_all
  have ms': "length (rd_success rollout) = length ?d"
      "ms = map (\<lambda>i. zero_after (?di ! i) (map (map of_bool) (rd_success rollout) ! i))
                [0..<length ?d]"
    using mul_mask_returns [OF ms [unfolded b(2)]] by simp_all
  have sums: "map sum_list mr = map fst (episode_metrics rollout)"
    unfolding mr'(2) by (simp add: episode_metrics_def Let_def sum_zero_after)
  have maxs: "maxs = map (fst \<circ> snd) (episode_metrics rollout)"
    unfolding reduce_max_returns [OF mx] mr'(2)
    by (simp add: episode_metrics_def Let_def)
  have succ: "map reduce_any ms = map (snd \<circ> snd) (episode_metrics rollout)"
    unfolding ms'(2) using ms'(1)
    by (simp add: episode_metrics_def Let_def any_zero_after)
  have "?out = (Inr rollout, env_state st')"
    using out st' by (simp add: prod_eq_iff)
  then show ?thesis
    using st' sums maxs succ by (intro exI [of _ rollout]) simp
qed


lemma eval_loop_returns:
  assumes "eval_loop env ret (Some s) ixs st = Inr st'"
  shows "length (rollouts_from env ret (env_state st) (map (batch_seeds s (num_envs env)) ixs))
           = length ixs
     \<and> env_state st' = run_all env ret (env_state st) (map (batch_seeds s (num_envs env)) ixs)
     \<and> sum_rewards st' = sum_rewards st @ map fst (concat (map episode_metrics
           (rollouts_from env ret (env_state st) (map (batch_seeds s (num_envs env)) ixs))))
     \<and> max_rewards st' = max_rewards st @ map (fst \<circ> snd) (concat (map episode_metrics
           (rollouts_from env ret (env_state st) (map (batch_seeds s (num_envs env)) ixs))))
     \<and> all_successes st' = all_successes st @ map (snd \<circ> snd) (concat (map episode_metrics
           (rollouts_from env ret (env_state st) (map (batch_seeds s (num_envs env)) ixs))))
     \<and> all_seeds st' = all_seeds st @ concat (map (batch_seeds s (num_envs env)) ixs)"
  using assms
proof (induction ixs arbitrary: st)
  case Nil
  then show ?case by simp
next
  case (Cons k ixs)
  obtain st1 where b: "eval_batch env ret (Some s) k st = Inr st1"
    and l: "eval_loop env ret (Some s) ixs st1 = Inr st'"
    using Cons.prems by (auto simp: bind_res_eq_Inr)
  obtain rollout where r:
    "run_rollout env (env_state st) (batch_seeds s (num_envs env) k) ret
       = (Inr rollout, env_state st1)"
    "sum_rewards st1 = sum_rewards st @ map fst (episode_metrics rollout)"
    "max_rewards st1 = max_rewards st @ map (fst \<circ> snd) (episode_metrics rollout)"
    "all_successes st1 = all_successes st @ map (snd \<circ> snd) (episode_metrics rollout)"
    "all_seeds st1 = all_seeds st @ batch_seeds s (num_envs env) k"
    using eval_batch_returns [OF b] by blast
  show ?case
    using Cons.IH [OF l] r by simp
qed

lemma compile_info_returns:
  assumes "compile_info n st = Inr info" and "n \<le> length (all_seeds st)"
  shows "0 < n \<and> n \<le> length (sum_rewards st) \<and> n \<le> length (max_rewards st)
     \<and> n \<le> length (all_successes st)"
  using assms
  by (auto simp: compile_info_def bind_res_eq_Inr zip_strict_def min_def split: if_splits)

lemma compile_info_explicit:
  assumes n: "0 < n" and l: "n \<le> length (sum_rewards st)" "n \<le> length (max_rewards st)"
    "n \<le> length (all_successes st)" "n \<le> length (all_seeds st)"
  shows "compile_info n st =
     Inr \<lparr>per_episode = map (\<lambda>i. \<lparr>episode_ix = i, sum_reward = sum_rewards st ! i,
                                  max_reward = max_rewards st ! i,
                                  success = all_successes st ! i,
                                  seed = all_seeds st ! i\<rparr>) [0..<n],
          aggregated =
            \<lparr>avg_sum_reward = nanmean (take n (sum_rewards st)),
             avg_max_reward = nanmean (take n (max_rewards st)),
             pc_success = nanmean (map of_bool (take n (all_successes st))) * 100\<rparr>,
          episodes = episode_data st\<rparr>"
proof -
  let ?z1 = "zip (take n (sum_rewards st)) (take n (max_rewards st))"
  let ?z2 = "zip ?z1 (take n (all_successes st))"
  let ?z3 = "zip ?z2 (take n (all_seeds st))"
  have z1: "zip_strict (take n (sum_rewards st)) (take n (max_rewards st)) = Inr ?z1"
    using l by (simp add: zip_strict_def)
  have z2: "zip_strict ?z1 (take n (all_successes st)) = Inr ?z2"
    using l by (simp add: zip_strict_def)
  have z3: "zip_strict ?z2 (take n (all_seeds st)) = Inr ?z3"
    using l by (simp add: zip_strict_def)
  have len: "length ?z3 = n" using l by simp
  have per: "map (\<lambda>ie. \<lparr>episode_ix = fst ie,
                             sum_reward = fst (fst (fst (snd ie))),
                             max_reward = snd (fst (fst (snd ie))),
                             success = snd (fst (snd ie)),
                             seed = snd (snd ie)\<rparr>) (enumerate 0 ?z3)
      = map (\<lambda>i. \<lparr>episode_ix = i, sum_reward = sum_rewards st ! i,
                                  max_reward = max_rewards st ! i,
                                  success = all_successes st ! i,
                                  seed = all_seeds st ! i\<rparr>) [0..<n]"
    using l by (simp add: list_eq_iff_nth_eq nth_enumerate_eq)
  show ?thesis
    unfolding compile_info_def z1 z2 z3 bind_res_Inr per using n by simp
qed

lemma eval_policy_unfolds:
  assumes ev: "eval_policy env w n ret (Some s) = Inr (info, w')"
    and n: "0 < n" and W: "0 < num_envs env"
  shows "\<exists>m. n_batches_of n (num_envs env) = Inr m
    \<and> int m = \<lceil>(of_nat n :: rat) / of_nat (num_envs env)\<rceil>
    \<and> length (rollouts_from env ret w (map (batch_seeds s (num_envs env)) [0..<m])) = m
    \<and> w' = run_all env ret w (map (batch_seeds s (num_envs env)) [0..<m])
    \<and> length (per_episode info) = n
    \<and> map episode_ix (per_episode info) = [0..<n]
    \<and> map seed (per_episode info) = map (\<lambda>i. s + int i) [0..<n]
    \<and> map (\<lambda>p. (sum_reward p, max_reward p, success p)) (per_episode info)
        = take n (concat (map episode_metrics
            (rollouts_from env ret w (map (batch_seeds s (num_envs env)) [0..<m]))))
    \<and> aggregated info
        = \<lparr>avg_sum_reward = nanmean (map sum_reward (per_episode info)),
           avg_max_reward = nanmean (map max_reward (per_episode info)),
           pc_success = nanmean (map (of_bool \<circ> success) (per_episode info)) * 100\<rparr>"
proof -
  let ?w = "num_envs env"
  let ?init = "\<lparr>sum_rewards = [], max_rewards = [], all_successes = [], all_seeds = [],
          episode_data = None, env_state = w\<rparr>"
  obtain m st where nb: "n_batches_of n ?w = Inr m"
    and loop: "eval_loop env ret (Some s) [0..<m] ?init = Inr st"
    and ci: "compile_info n st = Inr info" and w': "w' = env_state st"
    using ev by (auto simp: eval_policy_def bind_res_eq_Inr)
  have m: "n \<le> m * ?w" "(m - 1) * ?w < n" "0 < m"
    using n_batches_ceiling [OF W, of n] n nb by auto
  have ceil: "int m = \<lceil>(of_nat n :: rat) / of_nat ?w\<rceil>"
    using ceiling_of_batches [OF W m(3) m(1) m(2)] by simp
  let ?rds = "rollouts_from env ret w (map (batch_seeds s ?w) [0..<m])"
  let ?M = "concat (map episode_metrics ?rds)"
  have r: "length ?rds = m"
      "env_state st = run_all env ret w (map (batch_seeds s ?w) [0..<m])"
      "sum_rewards st = map fst ?M" "max_rewards st = map (fst \<circ> snd) ?M"
      "all_successes st = map (snd \<circ> snd) ?M"
      "all_seeds st = concat (map (batch_seeds s ?w) [0..<m])"
    using eval_loop_returns [OF loop] by simp_all
  have seeds: "all_seeds st = map (\<lambda>i. s + int i) [0..<m * ?w]"
    using r(6) by (simp add: concat_batch_seeds)
  have ls: "n \<le> length (all_seeds st)" using seeds m(1) by simp
  have l: "n \<le> length (sum_rewards st)" "n \<le> length (max_rewards st)"
      "n \<le> length (all_successes st)"
    using compile_info_returns [OF ci ls] by simp_all
  have lM: "n \<le> length ?M" using l(1) unfolding r(3) by simp
  have info: "info = \<lparr>per_episode = map (\<lambda>i. \<lparr>episode_ix = i, sum_reward = sum_rewards st ! i,
                                  max_reward = max_rewards st ! i,
                                  success = all_successes st ! i,
                                  seed = all_seeds st ! i\<rparr>) [0..<n],
          aggregated =
            \<lparr>avg_sum_reward = nanmean (take n (sum_rewards st)),
             avg_max_reward = nanmean (take n (max_rewards st)),
             pc_success = nanmean (map of_bool (take n (all_successes st))) * 100\<rparr>,
          episodes = episode_data st\<rparr>"
    using compile_info_explicit [OF n l ls] ci by simp
  have p1: "length (per_episode info) = n" by (simp add: info)
  have p2: "map episode_ix (per_episode info) = [0..<n]"
    by (simp add: info comp_def)
  have p3: "map seed (per_episode info) = map (\<lambda>i. s + int i) [0..<n]"
    using m(1) by (simp add: info comp_def seeds)
  have p4: "map (\<lambda>p. (sum_reward p, max_reward p, success p)) (per_episode info) = take n ?M"
  proof (rule nth_equalityI)
    show "length (map (\<lambda>p. (sum_reward p, max_reward p, success p)) (per_episode info))
        = length (take n ?M)"
      using lM by (simp add: info)
  next
    fix i assume "i < length (map (\<lambda>p. (sum_reward p, max_reward p, success p))
                                 (per_episode info))"
    then have i: "i < n" by (simp add: info)
    then have iM: "i < length ?M" using lM by simp
    show "map (\<lambda>p. (sum_reward p, max_reward p, success p)) (per_episode info) ! i
        = take n ?M ! i"
      using i iM unfolding info r(3,4,5) by simp
  qed
  have q1: "map sum_reward (per_episode info) = take n (sum_rewards st)"
    using l(1) by (simp add: info comp_def list_eq_iff_nth_eq)
  have q2: "map max_reward (per_episode info) = take n (max_rewards st)"
    using l(2) by (simp add: info comp_def list_eq_iff_nth_eq)
  have q3: "map (of_bool \<circ> success) (per_episode info)
      = map of_bool (take n (all_successes st))"
    using l(3) by (simp add: info comp_def list_eq_iff_nth_eq)
  have p5: "aggregated info
        = \<lparr>avg_sum_reward = nanmean (map sum_reward (per_episode info)),
           avg_max_reward = nanmean (map max_reward (per_episode info)),
           pc_success = nanmean (map (of_bool \<circ> success) (per_episode info)) * 100\<rparr>"
    unfolding q1 q2 q3 by (simp add: info)
  have e: "w' = run_all env ret w (map (batch_seeds s ?w) [0..<m])"
    using w' r(2) by simp
  show ?thesis
    by (intro exI [of _ m] conjI nb ceil r(1) e p1 p2 p3 p4 p5)
qed

lemma eval_policy_returns:
  assumes "0 < n_episodes" and "0 < num_envs env" and "rollouts_well_formed env ret"
  shows "\<exists>m st info.
      n_batches_of n_episodes (num_envs env) = Inr m
    \<and> int m = \<lceil>(of_nat n_episodes :: rat) / of_nat (num_envs env)\<rceil>
    \<and> eval_loop env ret (Some start_seed) [0..<m]
         \<lparr>sum_rewards = [], max_rewards = [], all_successes = [], all_seeds = [],
          episode_data = None, env_state = w\<rparr> = Inr st
    \<and> env_state st = run_all env ret w (map (batch_seeds start_seed (num_envs env)) [0..<m])
    \<and> length (sum_rewards st) = m * num_envs env
    \<and> length (max_rewards st) = m * num_envs env
    \<and> length (all_successes st) = m * num_envs env
    \<and> all_seeds st = map (\<lambda>i. start_seed + int i) [0..<m * num_envs env]
    \<and> n_episodes \<le> m * num_envs env
    \<and> eval_policy env w n_episodes ret (Some start_seed) = Inr (info, env_state st)
    \<and> length (per_episode info) = n_episodes
    \<and> per_episode info
        = map (\<lambda>i. \<lparr>episode_ix = i, sum_reward = sum_rewards st ! i,
                     max_reward = max_rewards st ! i, success = all_successes st ! i,
                     seed = start_seed + int i\<rparr>) [0..<n_episodes]
    \<and> aggregated info
        = \<lparr>avg_sum_reward = nanmean (take n_episodes (sum_rewards st)),
           avg_max_reward = nanmean (take n_episodes (max_rewards st)),
           pc_success = nanmean (map of_bool (take n_episodes (all_successes st))) * 100\<rparr>"
proof -
  let ?w = "num_envs env"
  let ?init = "\<lparr>sum_rewards = [], max_rewards = [], all_successes = [], all_seeds = [],
          episode_data = None, env_state = w\<rparr>"
  obtain m where m: "n_batches_of n_episodes ?w = Inr m" "n_episodes \<le> m * ?w"
    "(m - 1) * ?w < n_episodes" "0 < m"
    using n_batches_ceiling [OF assms(2), of n_episodes] assms(1) by blast
  have ceil: "int m = \<lceil>(of_nat n_episodes :: rat) / of_nat ?w\<rceil>"
    using ceiling_of_batches [OF assms(2) m(4) m(2) m(3)] by simp
  obtain sch where H: "rollouts_of_features env ret sch"
    using assms(3) unfolding rollouts_well_formed_def by blast
  have kept: "episodes_kept sch ret (0 * ?w) (episode_data ?init)"
    by (simp add: episodes_kept_def episodes_through_def)
  obtain st where st: "eval_loop env ret (Some start_seed) [0..<0 + m] ?init = Inr st"
    "length (sum_rewards st) = length (sum_rewards ?init) + m * ?w"
    "length (max_rewards st) = length (max_rewards ?init) + m * ?w"
    "length (all_successes st) = length (all_successes ?init) + m * ?w"
    "all_seeds st = all_seeds ?init @ concat (map (batch_seeds start_seed ?w) [0..<0 + m])"
    "env_state st = run_all env ret (env_state ?init) (map (batch_seeds start_seed ?w) [0..<0 + m])"
    using eval_loop_ok [OF H kept, of start_seed m] by blast
  have loop: "eval_loop env ret (Some start_seed) [0..<m] ?init = Inr st"
    using st(1) by simp
  have lens: "length (sum_rewards st) = m * ?w" "length (max_rewards st) = m * ?w"
    "length (all_successes st) = m * ?w"
    using st(2-4) by simp_all
  have seeds: "all_seeds st = map (\<lambda>i. start_seed + int i) [0..<m * ?w]"
    using st(5) by (simp add: concat_batch_seeds)
  have lseeds: "length (all_seeds st) = m * ?w" using seeds by simp
  have env: "env_state st = run_all env ret w (map (batch_seeds start_seed ?w) [0..<m])"
    using st(6) by simp
  have le: "n_episodes \<le> length (sum_rewards st)" "n_episodes \<le> length (max_rewards st)"
      "n_episodes \<le> length (all_successes st)" "n_episodes \<le> length (all_seeds st)"
    using lens lseeds m(2) by simp_all
  note info = compile_info_explicit [OF assms(1) le]
  let ?info = "\<lparr>per_episode = map (\<lambda>i. \<lparr>episode_ix = i, sum_reward = sum_rewards st ! i,
                                  max_reward = max_rewards st ! i,
                                  success = all_successes st ! i,
                                  seed = all_seeds st ! i\<rparr>) [0..<n_episodes],
          aggregated =
            \<lparr>avg_sum_reward = nanmean (take n_episodes (sum_rewards st)),
             avg_max_reward = nanmean (take n_episodes (max_rewards st)),
             pc_success = nanmean (map of_bool (take n_episodes (all_successes st))) * 100\<rparr>,
          episodes = episode_data st\<rparr>"
  have ev: "eval_policy env w n_episodes ret (Some start_seed) = Inr (?info, env_state st)"
    unfolding eval_policy_def m(1) bind_res_Inr loop info ..
  have per: "per_episode ?info
        = map (\<lambda>i. \<lparr>episode_ix = i, sum_reward = sum_rewards st ! i,
                     max_reward = max_rewards st ! i, success = all_successes st ! i,
                     seed = start_seed + int i\<rparr>) [0..<n_episodes]"
    using m(2) by (simp add: seeds)
  have plen: "length (per_episode ?info) = n_episodes" by simp
  have agg: "aggregated ?info
        = \<lparr>avg_sum_reward = nanmean (take n_episodes (sum_rewards st)),
           avg_max_reward = nanmean (take n_episodes (max_rewards st)),
           pc_success = nanmean (map of_bool (take n_episodes (all_successes st))) * 100\<rparr>"
    by simp
  show ?thesis
    by (intro exI [of _ m] exI [of _ st] exI [of _ ?info] conjI
        m(1) ceil loop env lens seeds m(2) ev plen per agg)
qed

text \<open>
  C7: eval_policy without rendering (\<^verbatim>\<open>max_episodes_rendered = 0\<close>), for \<open>n_episodes > 0\<close>,
  a batch width \<open>> 0\<close> and a given start seed, within the model of the compiler when
  episode data is asked for. Whenever the call returns, it has run
  exactly \<open>m = ceil (n_episodes / width)\<close> rollouts, with the seed ranges of batches
  \<open>0 .. m - 1\<close> in order, every one of which returned, and it leaves environment and
  policy in the state after the last of them; there are exactly \<open>n_episodes\<close> per-episode
  entries, numbered from 0, entry \<open>i\<close> with seed \<open>start_seed + i\<close> and with the metrics of
  the \<open>i\<close>-th episode of these rollouts taken in order, so that the surplus of the last
  batch is dropped from the tail; the aggregated entries are the means over these
  \<open>n_episodes\<close> entries. And the call does return when every rollout of the environment
  returns well-formed tensors of the batch width (with valid observations of the same
  features in every rollout when episode data is asked for); the \<open>m\<close> rollouts then hold
  \<open>m * width\<close> episodes, at least \<open>n_episodes\<close>.
\<close>

theorem eval_policy_batches_and_truncates:
  assumes "0 < n_episodes" and "0 < num_envs env" and "within_compiler_model env ret"
  shows "(\<forall>info w'.
        eval_policy env w n_episodes ret (Some start_seed) = Inr (info, w')
      \<longrightarrow> (\<exists>m. n_batches_of n_episodes (num_envs env) = Inr m
          \<and> int m = \<lceil>(of_nat n_episodes :: rat) / of_nat (num_envs env)\<rceil>
          \<and> length (rollouts_from env ret w
                       (map (batch_seeds start_seed (num_envs env)) [0..<m])) = m
          \<and> w' = run_all env ret w (map (batch_seeds start_seed (num_envs env)) [0..<m])
          \<and> length (per_episode info) = n_episodes
          \<and> map episode_ix (per_episode info) = [0..<n_episodes]
          \<and> map seed (per_episode info) = map (\<lambda>i. start_seed + int i) [0..<n_episodes]
          \<and> map (\<lambda>p. (sum_reward p, max_reward p, success p)) (per_episode info)
              = take n_episodes (concat (map episode_metrics
                  (rollouts_from env ret w
                     (map (batch_seeds start_seed (num_envs env)) [0..<m]))))
          \<and> aggregated info
              = \<lparr>avg_sum_reward = nanmean (map sum_reward (per_episode info)),
                 avg_max_reward = nanmean (map max_reward (per_episode info)),
                 pc_success = nanmean (map (of_bool \<circ> success) (per_episode info)) * 100\<rparr>))
    \<and> (rollouts_well_formed env ret
      \<longrightarrow> (\<exists>info w' m.
            eval_policy env w n_episodes ret (Some start_seed) = Inr (info, w')
          \<and> n_batches_of n_episodes (num_envs env) = Inr m
          \<and> n_episodes \<le> m * num_envs env
          \<and> length (concat (map episode_metrics
                (rollouts_from env ret w
                   (map (batch_seeds start_seed (num_envs env)) [0..<m]))))
              = m * num_envs env))"
proof (intro conjI allI impI)
  fix info w'
  assume "eval_policy env w n_episodes ret (Some start_seed) = Inr (info, w')"
  from eval_policy_unfolds [OF this assms(1,2)]
  show "\<exists>m. n_batches_of n_episodes (num_envs env) = Inr m
          \<and> int m = \<lceil>(of_nat n_episodes :: rat) / of_nat (num_envs env)\<rceil>
          \<and> length (rollouts_from env ret w
                       (map (batch_seeds start_seed (num_envs env)) [0..<m])) = m
          \<and> w' = run_all env ret w (map (batch_seeds start_seed (num_envs env)) [0..<m])
          \<and> length (per_episode info) = n_episodes
          \<and> map episode_ix (per_episode info) = [0..<n_episodes]
          \<and> map seed (per_episode info) = map (\<lambda>i. start_seed + int i) [0..<n_episodes]
          \<and> map (\<lambda>p. (sum_reward p, max_reward p, success p)) (per_episode info)
              = take n_episodes (concat (map episode_metrics
                  (rollouts_from env ret w
                     (map (batch_seeds start_seed (num_envs env)) [0..<m]))))
          \<and> aggregated info
              = \<lparr>avg_sum_reward = nanmean (map sum_reward (per_episode info)),
                 avg_max_reward = nanmean (map max_reward (per_episode info)),
                 pc_success = nanmean (map (of_bool \<circ> success) (per_episode info)) * 100\<rparr>" .
next
  assume H: "rollouts_well_formed env ret"
  let ?w = "num_envs env"
  obtain m st info where r: "n_batches_of n_episodes ?w = Inr m"
    "eval_loop env ret (Some start_seed) [0..<m]
         \<lparr>sum_rewards = [], max_rewards = [], all_successes = [], all_seeds = [],
          episode_data = None, env_state = w\<rparr> = Inr st"
    "length (sum_rewards st) = m * ?w" "n_episodes \<le> m * ?w"
    "eval_policy env w n_episodes ret (Some start_seed) = Inr (info, env_state st)"
    using eval_policy_returns [OF assms(1,2) H, of start_seed w] by blast
  have "sum_rewards st = map fst (concat (map episode_metrics
          (rollouts_from env ret w (map (batch_seeds start_seed ?w) [0..<m]))))"
    using eval_loop_returns [OF r(2)] by simp
  then have "length (concat (map episode_metrics
          (rollouts_from env ret w (map (batch_seeds start_seed ?w) [0..<m])))) = m * ?w"
    using r(3) by (metis length_map)
  then show "\<exists>info w' m.
            eval_policy env w n_episodes ret (Some start_seed) = Inr (info, w')
          \<and> n_batches_of n_episodes (num_envs env) = Inr m
          \<and> n_episodes \<le> m * num_envs env
          \<and> length (concat (map episode_metrics
                (rollouts_from env ret w
                   (map (batch_seeds start_seed (num_envs env)) [0..<m]))))
              = m * num_envs env"
    using r(1,4,5) by blast
qed

lemma example_env_ok: "rollouts_well_formed example_env ret"
proof -
  let ?r = "\<lambda>w :: nat. example_rollout\<lparr>rd_reward := replicate 2 (replicate 5 (of_nat (Suc w))),
              rd_observation := (if ret then rd_observation example_rollout else None)\<rparr>"
  have wf: "well_formed_rollout (?r w) 2 5" for w
    by (simp add: well_formed_rollout_def example_rollout_def observation_of_def
        fresh_keys_def column_names_def upt_rec numeral_eq_Suc)
  have valid: "ret \<Longrightarrow> list_all (\<lambda>kt. valid_frames (fst kt) (snd kt))
      (observation_of example_rollout)" by code_simp
  have obs: "rd_observation example_rollout = Some (observation_of example_rollout)"
    by (simp add: example_rollout_def observation_of_def)
  have f: "ret \<Longrightarrow> rollout_features (?r w) = rollout_features example_rollout" for w
    by (simp add: rollout_features_def observation_of_def example_rollout_def)
  have "rollouts_of_features example_env ret (rollout_features example_rollout)"
    unfolding rollouts_of_features_def
  proof (intro allI)
    fix w :: nat and seeds :: "int list"
    have "run_rollout example_env w seeds ret = (Inr (?r w), Suc w)"
      by (simp add: example_env_def)
    moreover have "ret \<longrightarrow> (\<exists>obs. rd_observation (?r w) = Some obs
               \<and> list_all (\<lambda>kt. valid_frames (fst kt) (snd kt)) obs)
             \<and> rollout_features (?r w) = rollout_features example_rollout"
      using valid obs f [of w] by simp
    ultimately show "\<exists>rollout w'. run_rollout example_env w seeds ret = (Inr rollout, w')
       \<and> (\<exists>n. well_formed_rollout rollout (num_envs example_env) n)
       \<and> (ret \<longrightarrow> (\<exists>obs. rd_observation rollout = Some obs
               \<and> list_all (\<lambda>kt. valid_frames (fst kt) (snd kt)) obs)
             \<and> rollout_features rollout = rollout_features example_rollout)"
      using wf [of w] by (intro exI [of _ "?r w"] exI [of _ "Suc w"] conjI exI [of _ 5])
        (simp_all add: example_env_def)
  qed
  then show ?thesis unfolding rollouts_well_formed_def by blast
qed

theorem eval_policy_batches_and_truncates_witness:
  "\<exists>info. eval_policy example_env 0 5 True (Some 7) = Inr (info, 3)
     \<and> n_batches_of 5 (num_envs example_env) = Inr 3
     \<and> map episode_ix (per_episode info) = [0, 1, 2, 3, 4]
     \<and> map seed (per_episode info) = [7, 8, 9, 10, 11]
     \<and> map (\<lambda>p. (sum_reward p, max_reward p, success p)) (per_episode info)
         = [(4, 1, False), (5, 1, False), (8, 2, False), (10, 2, False), (12, 3, False)]
     \<and> aggregated info = \<lparr>avg_sum_reward = 39 / 5, avg_max_reward = 9 / 5, pc_success = 0\<rparr>"
proof -
  have n: "(0 :: nat) < 5" and w: "0 < num_envs example_env"
    by (simp_all add: example_env_def)
  have nb: "n_batches_of 5 (num_envs example_env) = Inr 3"
    by (simp add: n_batches_of_def example_env_def)
  have run: "run_all example_env True 0 (map (batch_seeds 7 (num_envs example_env)) [0..<3]) = 3"
    by (simp add: example_env_def upt_rec numeral_eq_Suc)
  have M: "take 5 (concat (map episode_metrics
        (rollouts_from example_env True 0 (map (batch_seeds 7 (num_envs example_env)) [0..<3]))))
      = [(4, 1, False), (5, 1, False), (8, 2, False), (10, 2, False), (12, 3, False)]"
    by code_simp
  have within: "within_compiler_model example_env True"
    by (simp add: within_compiler_model_def example_env_def example_rollout_def
        fresh_keys_def observation_of_def column_names_def)
  note t = eval_policy_batches_and_truncates [OF n w within, where w = 0 and start_seed = 7]
  obtain info w' where ev: "eval_policy example_env 0 5 True (Some 7) = Inr (info, w')"
    using t [THEN conjunct2, rule_format, OF example_env_ok] by blast
  obtain m where m: "n_batches_of 5 (num_envs example_env) = Inr m"
    "w' = run_all example_env True 0 (map (batch_seeds 7 (num_envs example_env)) [0..<m])"
    "map episode_ix (per_episode info) = [0..<5]"
    "map seed (per_episode info) = map (\<lambda>i. 7 + int i) [0..<5]"
    "map (\<lambda>p. (sum_reward p, max_reward p, success p)) (per_episode info)
       = take 5 (concat (map episode_metrics
           (rollouts_from example_env True 0
              (map (batch_seeds 7 (num_envs example_env)) [0..<m]))))"
    "aggregated info
       = \<lparr>avg_sum_reward = nanmean (map sum_reward (per_episode info)),
          avg_max_reward = nanmean (map max_reward (per_episode info)),
          pc_success = nanmean (map (of_bool \<circ> success) (per_episode info)) * 100\<rparr>"
    using t [THEN conjunct1, rule_format, OF ev] by blast
  have m3: "m = 3" using m(1) nb by simp
  have e0: "eval_policy example_env 0 5 True (Some 7) = Inr (info, 3)"
    using ev m(2) run by (simp add: m3)
  have e1: "map episode_ix (per_episode info) = [0, 1, 2, 3, 4]"
    using m(3) by (simp add: upt_rec numeral_eq_Suc)
  have e2: "map seed (per_episode info) = [7, 8, 9, 10, 11]"
    using m(4) by (simp add: upt_rec numeral_eq_Suc)
  have e3: "map (\<lambda>p. (sum_reward p, max_reward p, success p)) (per_episode info)
         = [(4, 1, False), (5, 1, False), (8, 2, False), (10, 2, False), (12, 3, False)]"
    using m(5) M by (simp only: m3)
  have q1: "map sum_reward (per_episode info) = [4, 5, 8, 10, 12]"
    using arg_cong [OF e3, of "map fst"] by (simp add: comp_def)
  have q2: "map max_reward (per_episode info) = [1, 1, 2, 2, 3]"
    using arg_cong [OF e3, of "map (fst \<circ> snd)"] by (simp add: comp_def)
  have q3: "map (of_bool \<circ> success) (per_episode info) = [0, 0, 0, 0, 0 :: rat]"
    using arg_cong [OF e3, of "map (of_bool \<circ> snd \<circ> snd)"] by (simp add: comp_def)
  have e4: "aggregated info
      = \<lparr>avg_sum_reward = 39 / 5, avg_max_reward = 9 / 5, pc_success = 0\<rparr>"
    unfolding m(6) q1 q2 q3 by (simp add: nanmean_def)
  show ?thesis
    by (intro exI [of _ info] conjI e0 nb e1 e2 e3 e4)
qed

end
